theory Spec2Isabelle
  imports Complex_Main
begin

section \<open>Python and numpy primitives\<close>

text \<open>
  The notebook \<^verbatim>\<open>Example-5-MC-GP-IRS-CVA.ipynb\<close> works on numpy arrays of floating-point
  numbers. An array element is modelled as a real number, a one-dimensional array as a list,
  a two-dimensional array as a list of rows. Comparisons, indexing, minima and maxima are exact
  on floating-point numbers, so the model computes them as the code does. The arithmetic
  operations of the rescaling steps and of the exposure loop carry an explicit rounding
  operator \<open>rnd\<close> (section \<open>Rescaling\<close>), and an assignment into a \<^verbatim>\<open>float32\<close> array the
  rounding \<open>f32\<close>. The functions of the libraries whose results depend on how the library
  evaluates them are parameters of the model: \<^verbatim>\<open>np.quantile\<close>, \<^verbatim>\<open>np.exp\<close>, \<^verbatim>\<open>np.mean\<close>
  on a row of \<^verbatim>\<open>pi_0\<close>, the \<^verbatim>\<open>predict\<close> method of the regressor. Exceptions are values of
  type \<open>error\<close>.
\<close>

datatype error =
    NameError | IndexError | ValueError | KeyError | TypeError | AttributeError
  | ZeroDivisionError
  | NotFinite \<comment> \<open>numpy would go on with \<^verbatim>\<open>nan\<close> or \<^verbatim>\<open>inf\<close>; the model stops\<close>

text \<open>\<^verbatim>\<open>ar[:, c]\<close>: column \<open>c\<close> of a two-dimensional array.\<close>

definition col :: "real list list \<Rightarrow> nat \<Rightarrow> real list" where
  "col ar c = map (\<lambda>row. row ! c) ar"

text \<open>A list of rows is a two-dimensional array with \<open>d\<close> columns.\<close>

definition is_array2 :: "nat \<Rightarrow> real list list \<Rightarrow> bool" where
  "is_array2 d ar = list_all (\<lambda>row. length row = d) ar"

fun first_index :: "('a \<Rightarrow> bool) \<Rightarrow> 'a list \<Rightarrow> nat" where
  "first_index P [] = 0"
| "first_index P (x # xs) = (if P x then 0 else Suc (first_index P xs))"

text \<open>\<^verbatim>\<open>np.argmin(xs)\<close>, \<^verbatim>\<open>np.argmax(xs)\<close>: the first position of the least (greatest) element.\<close>

definition np_argmin :: "real list \<Rightarrow> nat" where
  "np_argmin xs = first_index (\<lambda>x. x = Min (set xs)) xs"

definition np_argmax :: "real list \<Rightarrow> nat" where
  "np_argmax xs = first_index (\<lambda>x. x = Max (set xs)) xs"

text \<open>
  \<^verbatim>\<open>np.quantile\<close> is a library function: the model takes it as a parameter
  \<open>quantile\<close>, with \<open>quantile xs p\<close> for \<^verbatim>\<open>np.quantile(xs, p)\<close>, and what is proved of
  the sampler holds for every such function. (The library interpolates in floating point, and
  the formula it evaluates has changed between its versions.) \<open>linear_quantile\<close> is the
  linear interpolation of the library's documentation in exact arithmetic: position
  \<open>(n - 1) * p\<close> of the sorted data, interpolated between its two neighbours. It stands for
  the library function in the worked examples only, on data where every step of the
  interpolation is exact in floating point too.
\<close>

definition linear_quantile :: "real list \<Rightarrow> real \<Rightarrow> real" where
  "linear_quantile xs p =
     (let s = sort xs; h = real (length xs - 1) * p; lo = nat \<lfloor>h\<rfloor>; hi = nat \<lceil>h\<rceil>
      in s ! lo + (h - real lo) * (s ! hi - s ! lo))"

text \<open>
  The pseudo-random generator is a stream of raw draws and the position of the next draw.
  \<^verbatim>\<open>np.random.choice(a, size)\<close> returns \<open>n\<close> elements of \<open>a\<close>, each at a drawn position;
  every outcome of the library call is the outcome for some stream. It raises on an empty
  \<open>a\<close> unless no sample is taken.
\<close>

type_synonym rng = "(nat \<Rightarrow> nat) \<times> nat"

definition random_choice :: "rng \<Rightarrow> nat list \<Rightarrow> nat \<Rightarrow> error + (nat list \<times> rng)" where
  "random_choice g a n =
     (if a = [] \<and> n \<noteq> 0 then Inl ValueError
      else Inr (map (\<lambda>k. a ! (fst g (snd g + k) mod length a)) [0..<n],
                (fst g, snd g + n)))"

section \<open>Stratified sampling\<close>

definition quantiles :: "real list" where
  "quantiles = [0, 1/4, 1/2, 3/4, 1]"

text \<open>\<^verbatim>\<open>q = np.quantile(ar, quantiles, axis=0)\<close>: row \<open>i\<close> holds quantile \<open>i\<close> of every column.\<close>

definition quantile_table ::
  "(real list \<Rightarrow> real \<Rightarrow> real) \<Rightarrow> nat \<Rightarrow> real list list \<Rightarrow> real list list"
where
  "quantile_table quantile ncols ar =
     map (\<lambda>p. map (\<lambda>c. quantile (col ar c) p) [0..<ncols]) quantiles"

text \<open>\<^verbatim>\<open>(ar[:, c] >= q[i, c]) & (ar[:, c] <= q[i+1, c])\<close> at one row.\<close>

definition in_bucket :: "real list list \<Rightarrow> nat \<Rightarrow> nat \<Rightarrow> real list \<Rightarrow> bool" where
  "in_bucket q c i row = (q ! i ! c \<le> row ! c \<and> row ! c \<le> q ! (i + 1) ! c)"

text \<open>\<^verbatim>\<open>np.where(mask)[0]\<close>: the row numbers at which the mask holds, ascending.\<close>

definition np_where :: "(real list \<Rightarrow> bool) \<Rightarrow> real list list \<Rightarrow> nat list" where
  "np_where P ar = filter (\<lambda>r. P (ar ! r)) [0..<length ar]"

definition bucket2 :: "real list list \<Rightarrow> real list list \<Rightarrow> nat \<times> nat \<Rightarrow> nat list" where
  "bucket2 q ar b = np_where (\<lambda>row. in_bucket q 0 (fst b) row \<and> in_bucket q 1 (snd b) row) ar"

definition bucket3 :: "real list list \<Rightarrow> real list list \<Rightarrow> nat \<times> nat \<times> nat \<Rightarrow> nat list" where
  "bucket3 q ar b =
     np_where (\<lambda>row. in_bucket q 0 (fst b) row \<and> in_bucket q 1 (fst (snd b)) row
                    \<and> in_bucket q 2 (snd (snd b)) row) ar"

text \<open>
  The body of the two-column loop: a bucket with more than \<open>num_samples\<close> rows is truncated,
  any other is sampled with replacement (which raises on an empty bucket).
\<close>

definition draw2 :: "nat \<Rightarrow> rng \<Rightarrow> nat list \<Rightarrow> error + (nat list \<times> rng)" where
  "draw2 num_samples g idx_1 =
     (if length idx_1 > num_samples then Inr (take num_samples idx_1, g)
      else random_choice g idx_1 num_samples)"

text \<open>The body of the three-column loop: an empty bucket is counted and skipped.\<close>

definition draw3 :: "nat \<Rightarrow> rng \<Rightarrow> nat list \<Rightarrow> error + (nat list \<times> rng)" where
  "draw3 num_samples g idx_1 =
     (if length idx_1 > num_samples then Inr (take num_samples idx_1, g)
      else if length idx_1 > 0 then random_choice g idx_1 num_samples
      else Inr ([], g))"

text \<open>
  The nested \<^verbatim>\<open>for\<close> loops over the buckets, in the order of the loops; \<open>idx\<close> grows by
  \<^verbatim>\<open>np.append\<close>.
\<close>

fun sample_loop ::
  "(rng \<Rightarrow> 'b \<Rightarrow> error + (nat list \<times> rng)) \<Rightarrow> 'b list \<Rightarrow> nat list \<Rightarrow> rng \<Rightarrow> error + (nat list \<times> rng)"
where
  "sample_loop body [] idx g = Inr (idx, g)"
| "sample_loop body (b # bs) idx g =
     (case body g b of
        Inl e \<Rightarrow> Inl e
      | Inr (idx_2, g') \<Rightarrow> sample_loop body bs (idx @ idx_2) g')"

definition buckets2 :: "(nat \<times> nat) list" where
  "buckets2 = List.product [0..<4] [0..<4]"

definition buckets3 :: "(nat \<times> nat \<times> nat) list" where
  "buckets3 = List.product [0..<4] (List.product [0..<4] [0..<4])"

text \<open>
  \<^verbatim>\<open>stratified_sampling(ar, M)\<close>; \<open>ncols\<close> is the source's \<^verbatim>\<open>dim\<close>, and \<open>idx_1\<close>, \<open>idx_2\<close>
  above are its two temporaries. The array has at least one row (with none, numpy raises
  in \<^verbatim>\<open>np.argmin\<close> at the latest, and the list of rows has lost the number of columns).
  With one column or none, the \<^verbatim>\<open>else\<close> branch reads column 1 and raises IndexError.
  The two slice assignments at the end need \<open>ncols\<close> entries each: on a shorter
  \<open>idx\<close> numpy cannot broadcast and raises ValueError. The counters \<^verbatim>\<open>sum_\<close> and
  \<^verbatim>\<open>counter\<close> are only printed. \<open>bucket_draws\<close> is the part before the comment
  \<^verbatim>\<open># ensure that minimums and maximums are in the training set\<close>: the value of \<^verbatim>\<open>idx\<close>
  when the loops are done. \<^verbatim>\<open>int(M / num_buckets**dim)\<close> is the integer quotient.
\<close>

definition bucket_draws ::
  "(real list \<Rightarrow> real \<Rightarrow> real) \<Rightarrow> rng \<Rightarrow> real list list \<Rightarrow> nat \<Rightarrow> error + (nat list \<times> rng)"
where
  "bucket_draws quantile g ar M =
     (let ncols = length (hd ar);
          q = quantile_table quantile ncols ar;
          num_samples = M div 4 ^ ncols
      in if ncols = 2 then
           sample_loop (\<lambda>g b. draw2 num_samples g (bucket2 q ar b)) buckets2 [] g
         else if ncols < 3 then Inl IndexError
         else
           sample_loop (\<lambda>g b. draw3 num_samples g (bucket3 q ar b)) buckets3 [] g)"

definition stratified_sampling ::
  "(real list \<Rightarrow> real \<Rightarrow> real) \<Rightarrow> rng \<Rightarrow> real list list \<Rightarrow> nat \<Rightarrow> error + (nat list \<times> rng)"
where
  "stratified_sampling quantile g ar M =
     (if ar = [] then Inl ValueError
      else
        let ncols = length (hd ar)
        in case bucket_draws quantile g ar M of
             Inl e \<Rightarrow> Inl e
           | Inr (idx, g') \<Rightarrow>
               if length idx < 2 * ncols then Inl ValueError
               else
                 let idx_min = map (\<lambda>c. np_argmin (col ar c)) [0..<ncols];
                     idx_max = map (\<lambda>c. np_argmax (col ar c)) [0..<ncols]
                 in Inr (idx_min @ idx_max @ drop (2 * ncols) idx, g'))"

subsection \<open>Properties of the sampler\<close>

lemma np_where_valid: "r \<in> set (np_where P ar) \<Longrightarrow> r < length ar"
  by (simp add: np_where_def)

lemma random_choice_Inr:
  assumes "random_choice g a n = Inr (xs, g')"
  shows "length xs = n \<and> set xs \<subseteq> set a"
proof -
  from assms have ne: "a \<noteq> [] \<or> n = 0" and xs: "xs = map (\<lambda>k. a ! (fst g (snd g + k) mod length a)) [0..<n]"
    by (auto simp: random_choice_def split: if_splits)
  show ?thesis
  proof (cases "n = 0")
    case True
    then show ?thesis using xs by simp
  next
    case False
    with ne have "a \<noteq> []" by simp
    then have "0 < length a" by simp
    then have "\<And>k. a ! (fst g (snd g + k) mod length a) \<in> set a"
      by (simp add: nth_mem)
    then show ?thesis using xs by auto
  qed
qed

lemma random_choice_total: "a \<noteq> [] \<Longrightarrow> \<exists>r. random_choice g a n = Inr r"
  by (simp add: random_choice_def)

lemma draw2_Inr:
  assumes "draw2 n g b = Inr (xs, g')"
  shows "length xs = n \<and> set xs \<subseteq> set b \<and> (n < length b \<longrightarrow> xs = take n b)"
proof (cases "n < length b")
  case True
  with assms have "xs = take n b" by (simp add: draw2_def)
  with True show ?thesis by (auto dest: in_set_takeD)
next
  case False
  with assms have "random_choice g b n = Inr (xs, g')" by (simp add: draw2_def)
  from random_choice_Inr [OF this] False show ?thesis by simp
qed

lemma draw2_choice:
  "draw2 n g b = Inr (xs, g') \<Longrightarrow> length b \<le> n \<Longrightarrow> random_choice g b n = Inr (xs, g')"
  by (simp add: draw2_def)

lemma draw2_total: "b \<noteq> [] \<Longrightarrow> \<exists>r. draw2 n g b = Inr r"
  by (simp add: draw2_def random_choice_def)

lemma draw3_Inr:
  assumes "draw3 n g b = Inr (xs, g')"
  shows "set xs \<subseteq> set b \<and> (b \<noteq> [] \<longrightarrow> length xs = n) \<and> (n < length b \<longrightarrow> xs = take n b)"
proof (cases "n < length b")
  case True
  with assms have "xs = take n b" by (simp add: draw3_def)
  with True show ?thesis by (auto dest: in_set_takeD)
next
  case False
  show ?thesis
  proof (cases "b = []")
    case True
    with assms show ?thesis by (simp add: draw3_def)
  next
    case nonempty: False
    with False assms have "random_choice g b n = Inr (xs, g')" by (simp add: draw3_def)
    from random_choice_Inr [OF this] False show ?thesis by simp
  qed
qed

lemma sample_loop_Inr:
  assumes "sample_loop body bs idx g = Inr (res, g')"
  shows "\<exists>draws. length draws = length bs \<and> res = idx @ concat draws
           \<and> (\<forall>k<length bs. \<exists>g1 g2. body g1 (bs ! k) = Inr (draws ! k, g2))"
  using assms
proof (induction bs arbitrary: idx g)
  case Nil
  then show ?case by simp
next
  case (Cons b bs)
  from Cons.prems obtain xs g1 where b: "body g b = Inr (xs, g1)"
    and rest: "sample_loop body bs (idx @ xs) g1 = Inr (res, g')"
    by (auto split: sum.splits)
  from Cons.IH [OF rest] obtain draws where d: "length draws = length bs"
    "res = (idx @ xs) @ concat draws"
    "\<forall>k<length bs. \<exists>g1 g2. body g1 (bs ! k) = Inr (draws ! k, g2)" by blast
  have "\<forall>k<length (b # bs). \<exists>g1 g2. body g1 ((b # bs) ! k) = Inr ((xs # draws) ! k, g2)"
  proof (intro allI impI)
    fix k assume k: "k < length (b # bs)"
    show "\<exists>g1 g2. body g1 ((b # bs) ! k) = Inr ((xs # draws) ! k, g2)"
    proof (cases k)
      case 0
      have "body g ((b # bs) ! 0) = Inr ((xs # draws) ! 0, g1)" using b by simp
      then show ?thesis unfolding 0 by blast
    next
      case (Suc j)
      with k have "j < length bs" by simp
      with d(3) obtain h1 h2 where "body h1 (bs ! j) = Inr (draws ! j, h2)" by blast
      then have "body h1 ((b # bs) ! Suc j) = Inr ((xs # draws) ! Suc j, h2)" by simp
      then show ?thesis unfolding Suc by blast
    qed
  qed
  with d(1,2) show ?case
    by (intro exI [of _ "xs # draws"]) simp
qed

lemma sample_loop_total:
  assumes "\<forall>b\<in>set bs. \<forall>g. \<exists>r. body g b = Inr r"
  shows "\<exists>r. sample_loop body bs idx g = Inr r"
  using assms
proof (induction bs arbitrary: idx g)
  case Nil
  then show ?case by simp
next
  case (Cons b bs)
  from Cons.prems have "\<forall>g. \<exists>r. body g b = Inr r"
    by (simp del: split_paired_All split_paired_Ex)
  then have "\<exists>r. body g b = Inr r" ..
  then obtain r where r: "body g b = Inr r" ..
  obtain xs g1 where "r = (xs, g1)" by (cases r)
  with r have b: "body g b = Inr (xs, g1)" by simp
  from Cons.prems have "\<forall>b\<in>set bs. \<forall>g. \<exists>r. body g b = Inr r"
    by (simp del: split_paired_All split_paired_Ex)
  from Cons.IH [OF this] have "\<exists>r. sample_loop body bs (idx @ xs) g1 = Inr r" .
  with b show ?case by simp
qed

lemma first_index_less: "\<exists>x\<in>set xs. P x \<Longrightarrow> first_index P xs < length xs"
  by (induction xs) auto

lemma first_index_holds: "\<exists>x\<in>set xs. P x \<Longrightarrow> P (xs ! first_index P xs)"
  by (induction xs) auto

lemma np_argmin_valid:
  assumes "xs \<noteq> []"
  shows "np_argmin xs < length xs \<and> xs ! np_argmin xs = Min (set xs)"
proof -
  from assms have "Min (set xs) \<in> set xs" by (intro Min_in) simp_all
  then have ex: "\<exists>x\<in>set xs. x = Min (set xs)" by blast
  from first_index_less [OF ex] first_index_holds [OF ex]
  show ?thesis by (simp add: np_argmin_def)
qed

lemma np_argmax_valid:
  assumes "xs \<noteq> []"
  shows "np_argmax xs < length xs \<and> xs ! np_argmax xs = Max (set xs)"
proof -
  from assms have "Max (set xs) \<in> set xs" by (intro Max_in) simp_all
  then have ex: "\<exists>x\<in>set xs. x = Max (set xs)" by blast
  from first_index_less [OF ex] first_index_holds [OF ex]
  show ?thesis by (simp add: np_argmax_def)
qed


lemma length_concat_const:
  "\<forall>k<length ds. length (ds ! k) = n \<Longrightarrow> length (concat ds) = n * length ds"
proof (induction ds)
  case Nil
  then show ?case by simp
next
  case (Cons d ds)
  from Cons.prems have "length ((d # ds) ! 0) = n" by blast
  then have d: "length d = n" by simp
  have "\<forall>k<length ds. length (ds ! k) = n"
  proof (intro allI impI)
    fix k assume "k < length ds"
    then have "Suc k < length (d # ds)" by simp
    with Cons.prems have "length ((d # ds) ! Suc k) = n" by blast
    then show "length (ds ! k) = n" by simp
  qed
  from Cons.IH [OF this] d show ?case by simp
qed

lemma set_concat_nth: "x \<in> set (concat ds) \<Longrightarrow> \<exists>k<length ds. x \<in> set (ds ! k)"
proof -
  assume "x \<in> set (concat ds)"
  then obtain d where "d \<in> set ds" "x \<in> set d" by auto
  then show ?thesis by (metis in_set_conv_nth)
qed

lemma length_buckets2: "length buckets2 = 16"
  by (simp add: buckets2_def)

lemma length_col: "length (col ar c) = length ar"
  by (simp add: col_def)

lemma bucket2_valid: "r \<in> set (bucket2 q ar b) \<Longrightarrow> r < length ar"
  by (simp add: bucket2_def np_where_valid)

lemma bucket3_valid: "r \<in> set (bucket3 q ar b) \<Longrightarrow> r < length ar"
  by (simp add: bucket3_def np_where_valid)

lemma is_array2_hd: "is_array2 d ar \<Longrightarrow> ar \<noteq> [] \<Longrightarrow> length (hd ar) = d"
  by (cases ar) (simp_all add: is_array2_def)

text \<open>
  A worked input: the four corners of the unit square. The quartiles of both columns are
  0, 0, 1/2, 1 and 1, so each of the sixteen buckets holds exactly one row.
\<close>

definition grid :: "real list list" where
  "grid = [[0, 0], [0, 1], [1, 0], [1, 1]]"

text \<open>
  The buckets in the words of the description, to compare the masks of the code with:
  \<open>quartile quantile ar i c\<close> is the quantile of column \<open>c\<close> at level number \<open>i\<close> of
  0, 0.25, 0.5, 0.75, 1, and \<open>quartile_bucket quantile ar i j\<close> lists in ascending order the
  rows whose first coordinate lies between the quartiles \<open>i\<close> and \<open>i + 1\<close> of column 0 and
  whose second coordinate lies between the quartiles \<open>j\<close> and \<open>j + 1\<close> of column 1, bounds
  included.
\<close>

definition quartile :: "(real list \<Rightarrow> real \<Rightarrow> real) \<Rightarrow> real list list \<Rightarrow> nat \<Rightarrow> nat \<Rightarrow> real" where
  "quartile quantile ar i c = quantile (col ar c) ([0, 1/4, 1/2, 3/4, 1] ! i)"

definition quartile_bucket ::
  "(real list \<Rightarrow> real \<Rightarrow> real) \<Rightarrow> real list list \<Rightarrow> nat \<Rightarrow> nat \<Rightarrow> nat list" where
  "quartile_bucket quantile ar i j =
     filter (\<lambda>r. quartile quantile ar i 0 \<le> ar ! r ! 0 \<and> ar ! r ! 0 \<le> quartile quantile ar (i + 1) 0
               \<and> quartile quantile ar j 1 \<le> ar ! r ! 1 \<and> ar ! r ! 1 \<le> quartile quantile ar (j + 1) 1)
       [0..<length ar]"

text \<open>
  A second worked input, with a repeated row: the quartiles of both columns are 0, 0, 0, 1
  and 1. Bucket (0, 0) holds the rows 0 and 4, bucket (2, 2) all five rows, bucket (3, 3)
  row 3 alone.
\<close>

definition grid5 :: "real list list" where
  "grid5 = [[0, 0], [0, 1], [1, 0], [1, 1], [0, 0]]"

lemma quantile_table_nth:
  "i < 5 \<Longrightarrow> c < ncols \<Longrightarrow> quantile_table quantile ncols ar ! i ! c = quartile quantile ar i c"
proof -
  assume i: "i < 5" and c: "c < ncols"
  have len: "length quantiles = 5" by (simp add: quantiles_def)
  have "quantile_table quantile ncols ar ! i = map (\<lambda>c. quantile (col ar c) (quantiles ! i)) [0..<ncols]"
    unfolding quantile_table_def using i len by simp
  with c have "quantile_table quantile ncols ar ! i ! c = quantile (col ar c) (quantiles ! i)"
    by simp
  then show ?thesis by (simp add: quartile_def quantiles_def)
qed

lemma bucket2_quartile_bucket:
  assumes "i < 4" "j < 4"
  shows "bucket2 (quantile_table quantile 2 ar) ar (i, j) = quartile_bucket quantile ar i j"
  using assms
  by (simp add: bucket2_def np_where_def in_bucket_def quartile_bucket_def quantile_table_nth)

lemma buckets2_nth: "i < 4 \<Longrightarrow> j < 4 \<Longrightarrow> buckets2 ! (4 * i + j) = (i, j)"
  unfolding buckets2_def by (subst product_nth) simp_all


text \<open>
  Claim C6. For a two-column array and \<open>M \<ge> 16\<close> such that each of the 16 pairwise
  quartile buckets is non-empty, \<open>stratified_sampling\<close> returns. The pass \<open>(i, j)\<close> of
  the loops, number \<open>4 * i + j\<close>, contributes exactly \<open>M div 16\<close> row numbers, all of
  rows of the bucket \<open>(i, j)\<close> of the quartiles at the levels 0, 0.25, 0.5, 0.75, 1 of the two
  columns: the first \<open>M div 16\<close> rows of a bucket that has more, the result of
  \<^verbatim>\<open>np.random.choice\<close> on the bucket otherwise. The returned array has length \<open>16 * (M div 16)\<close>, every entry is a row number of
  \<open>ar\<close>, and from position 4 on it is the concatenation of the sixteen contributions.
\<close>

theorem stratified_sampling_two_columns:
  assumes cols: "is_array2 2 ar"
    and M: "16 \<le> M"
    and ne: "\<forall>i<4. \<forall>j<4. quartile_bucket quantile ar i j \<noteq> []"
  shows "\<exists>idx g' draws.
           stratified_sampling quantile g ar M = Inr (idx, g')
         \<and> length idx = 16 * (M div 16)
         \<and> (\<forall>r\<in>set idx. r < length ar)
         \<and> length draws = 16
         \<and> (\<forall>i<4. \<forall>j<4.
                 length (draws ! (4 * i + j)) = M div 16
               \<and> set (draws ! (4 * i + j)) \<subseteq> set (quartile_bucket quantile ar i j)
               \<and> (M div 16 < length (quartile_bucket quantile ar i j)
                    \<longrightarrow> draws ! (4 * i + j) = take (M div 16) (quartile_bucket quantile ar i j))
               \<and> (length (quartile_bucket quantile ar i j) \<le> M div 16
                    \<longrightarrow> (\<exists>g1 g2. random_choice g1 (quartile_bucket quantile ar i j) (M div 16)
                                     = Inr (draws ! (4 * i + j), g2))))
         \<and> drop 4 idx = drop 4 (concat draws)"
proof -
  define q where "q = quantile_table quantile 2 ar"
  define n where "n = M div 16"
  define body where "body = (\<lambda>g b. draw2 n g (bucket2 q ar b))"
  have bq: "bucket2 q ar (i, j) = quartile_bucket quantile ar i j" if "i < 4" "j < 4" for i j
    unfolding q_def using that by (rule bucket2_quartile_bucket)
  have mem: "\<exists>i<4. \<exists>j<4. b = (i, j)" if "b \<in> set buckets2" for b
    using that by (auto simp: buckets2_def)
  have ne2: "bucket2 q ar b \<noteq> []" if "b \<in> set buckets2" for b
  proof -
    from mem [OF that] obtain i j where "i < 4" "j < 4" "b = (i, j)" by blast
    with bq ne show ?thesis by simp
  qed
  have "(0, 0) \<in> set buckets2" by (simp add: buckets2_def)
  then have "bucket2 q ar (0, 0) \<noteq> []" by (rule ne2)
  then obtain r where "r \<in> set (bucket2 q ar (0, 0))" by (cases "bucket2 q ar (0, 0)") auto
  then have "r < length ar" by (rule bucket2_valid)
  then have ar: "ar \<noteq> []" by auto
  with cols have hd: "length (hd ar) = 2" by (simp add: is_array2_hd)
  have n1: "1 \<le> n" using M unfolding n_def by (simp add: Suc_le_eq div_greater_zero_iff)
  have bd: "bucket_draws quantile g ar M = sample_loop body buckets2 [] g"
    by (simp add: bucket_draws_def hd body_def q_def n_def)
  have "\<forall>b\<in>set buckets2. \<forall>g. \<exists>r. body g b = Inr r"
    using ne2 draw2_total unfolding body_def by blast
  from sample_loop_total [OF this] obtain res where "sample_loop body buckets2 [] g = Inr res" ..
  moreover obtain idx0 g' where "res = (idx0, g')" by (cases res)
  ultimately have loop: "sample_loop body buckets2 [] g = Inr (idx0, g')" by simp
  from sample_loop_Inr [OF loop] obtain draws where draws: "length draws = length buckets2"
    "idx0 = [] @ concat draws"
    "\<forall>k<length buckets2. \<exists>g1 g2. body g1 (buckets2 ! k) = Inr (draws ! k, g2)" by blast
  have each: "length (draws ! k) = n \<and> set (draws ! k) \<subseteq> set (bucket2 q ar (buckets2 ! k))
        \<and> (n < length (bucket2 q ar (buckets2 ! k)) \<longrightarrow> draws ! k = take n (bucket2 q ar (buckets2 ! k)))
        \<and> (length (bucket2 q ar (buckets2 ! k)) \<le> n
             \<longrightarrow> (\<exists>g1 g2. random_choice g1 (bucket2 q ar (buckets2 ! k)) n = Inr (draws ! k, g2)))"
    if "k < 16" for k
  proof -
    from that draws(3) obtain g1 g2 where "body g1 (buckets2 ! k) = Inr (draws ! k, g2)"
      unfolding length_buckets2 by blast
    then have d2: "draw2 n g1 (bucket2 q ar (buckets2 ! k)) = Inr (draws ! k, g2)"
      by (simp add: body_def)
    from draw2_Inr [OF d2] draw2_choice [OF d2] show ?thesis by blast
  qed
  have each2: "length (draws ! (4 * i + j)) = n
        \<and> set (draws ! (4 * i + j)) \<subseteq> set (quartile_bucket quantile ar i j)
        \<and> (n < length (quartile_bucket quantile ar i j)
             \<longrightarrow> draws ! (4 * i + j) = take n (quartile_bucket quantile ar i j))
        \<and> (length (quartile_bucket quantile ar i j) \<le> n
             \<longrightarrow> (\<exists>g1 g2. random_choice g1 (quartile_bucket quantile ar i j) n
                              = Inr (draws ! (4 * i + j), g2)))"
    if "i < 4" "j < 4" for i j
  proof -
    from that have "4 * i + j < 16" by simp
    from each [OF this] show ?thesis
      unfolding buckets2_nth [OF that] bq [OF that] .
  qed
  have len16: "length draws = 16" using draws(1) by (simp add: length_buckets2)
  have "\<forall>k<length draws. length (draws ! k) = n" using each len16 by simp
  from length_concat_const [OF this] have len0: "length idx0 = 16 * n"
    using draws(2) len16 by simp
  with n1 have ge4: "4 \<le> length idx0" by simp
  define idx_min where "idx_min = map (\<lambda>c. np_argmin (col ar c)) [0..<2]"
  define idx_max where "idx_max = map (\<lambda>c. np_argmax (col ar c)) [0..<2]"
  define idx where "idx = idx_min @ idx_max @ drop 4 idx0"
  have res: "stratified_sampling quantile g ar M = Inr (idx, g')"
    using ar hd bd loop ge4
    by (simp add: stratified_sampling_def idx_def idx_min_def idx_max_def)
  have len: "length idx = 16 * n"
    using len0 ge4 by (simp add: idx_def idx_min_def idx_max_def)
  have valid0: "r < length ar" if "r \<in> set idx0" for r
  proof -
    from that draws(2) have "r \<in> set (concat draws)" by simp
    from set_concat_nth [OF this] obtain k where "k < length draws" "r \<in> set (draws ! k)" by blast
    with each len16 have "r \<in> set (bucket2 q ar (buckets2 ! k))" by auto
    then show ?thesis by (rule bucket2_valid)
  qed
  have colne: "col ar c \<noteq> []" for c using ar by (simp add: col_def)
  have valid: "\<forall>r\<in>set idx. r < length ar"
  proof
    fix r assume "r \<in> set idx"
    then consider "r \<in> set idx_min" | "r \<in> set idx_max" | "r \<in> set (drop 4 idx0)"
      by (auto simp: idx_def)
    then show "r < length ar"
    proof cases
      case 1
      then obtain c where "r = np_argmin (col ar c)" by (auto simp: idx_min_def)
      with np_argmin_valid [OF colne, of c] show ?thesis by (simp add: length_col)
    next
      case 2
      then obtain c where "r = np_argmax (col ar c)" by (auto simp: idx_max_def)
      with np_argmax_valid [OF colne, of c] show ?thesis by (simp add: length_col)
    next
      case 3
      then have "r \<in> set idx0" by (rule in_set_dropD)
      then show ?thesis by (rule valid0)
    qed
  qed
  have d4: "drop 4 idx = drop 4 (concat draws)"
    using draws(2) by (simp add: idx_def idx_min_def idx_max_def)
  have all2: "\<forall>i<4. \<forall>j<4. length (draws ! (4 * i + j)) = n
        \<and> set (draws ! (4 * i + j)) \<subseteq> set (quartile_bucket quantile ar i j)
        \<and> (n < length (quartile_bucket quantile ar i j)
             \<longrightarrow> draws ! (4 * i + j) = take n (quartile_bucket quantile ar i j))
        \<and> (length (quartile_bucket quantile ar i j) \<le> n
             \<longrightarrow> (\<exists>g1 g2. random_choice g1 (quartile_bucket quantile ar i j) n
                              = Inr (draws ! (4 * i + j), g2)))"
    using each2 by blast
  show ?thesis
    unfolding n_def [symmetric]
    by (intro exI [of _ idx] exI [of _ g'] exI [of _ draws] conjI res len valid len16 all2 d4)
qed

theorem stratified_sampling_two_columns_witness:
  "is_array2 2 grid5 \<and> (16::nat) \<le> 16
   \<and> list_all (\<lambda>b. quartile_bucket linear_quantile grid5 (fst b) (snd b) \<noteq> []) buckets2
   \<and> (\<exists>idx g' draws. stratified_sampling linear_quantile (\<lambda>k. k, 0) grid5 16 = Inr (idx, g')
          \<and> length idx = 16 \<and> list_all (\<lambda>r. r < 5) idx \<and> length draws = 16
          \<and> draws ! 0 = [0] \<and> draws ! 10 = [0] \<and> set (draws ! 15) \<subseteq> {3}
          \<and> drop 4 idx = drop 4 (concat draws))"
proof -
  have h1: "is_array2 2 grid5" by (simp add: is_array2_def grid5_def)
  have h2: "(16::nat) \<le> 16" by simp
  have h3: "list_all (\<lambda>b. quartile_bucket linear_quantile grid5 (fst b) (snd b) \<noteq> []) buckets2"
    by code_simp
  have h3': "\<forall>i<4. \<forall>j<4. quartile_bucket linear_quantile grid5 i j \<noteq> []"
  proof (intro allI impI)
    fix i j :: nat assume "i < 4" "j < 4"
    then have "(i, j) \<in> set buckets2" by (simp add: buckets2_def)
    with h3 show "quartile_bucket linear_quantile grid5 i j \<noteq> []"
      unfolding list_all_iff by fastforce
  qed
  have len: "length grid5 = 5" by (simp add: grid5_def)
  have b0: "quartile_bucket linear_quantile grid5 0 0 = [0, 4]" by code_simp
  have b10: "quartile_bucket linear_quantile grid5 2 2 = [0, 1, 2, 3, 4]" by code_simp
  have b15: "quartile_bucket linear_quantile grid5 3 3 = [3]" by code_simp
  from stratified_sampling_two_columns [OF h1 h2 h3', of "(\<lambda>k. k, 0)"]
  obtain idx g' draws where r:
    "stratified_sampling linear_quantile (\<lambda>k. k, 0) grid5 16 = Inr (idx, g')"
    "length idx = 16 * (16 div 16)" "\<forall>r\<in>set idx. r < length grid5" "length draws = 16"
    "\<forall>i<4. \<forall>j<4.
         length (draws ! (4 * i + j)) = 16 div 16
       \<and> set (draws ! (4 * i + j)) \<subseteq> set (quartile_bucket linear_quantile grid5 i j)
       \<and> (16 div 16 < length (quartile_bucket linear_quantile grid5 i j)
            \<longrightarrow> draws ! (4 * i + j) = take (16 div 16) (quartile_bucket linear_quantile grid5 i j))
       \<and> (length (quartile_bucket linear_quantile grid5 i j) \<le> 16 div 16
            \<longrightarrow> (\<exists>g1 g2. random_choice g1 (quartile_bucket linear_quantile grid5 i j) (16 div 16)
                             = Inr (draws ! (4 * i + j), g2)))"
    "drop 4 idx = drop 4 (concat draws)"
    by (elim exE conjE) (rule that, assumption+)
  have e0: "(0::nat) < 4" and e2: "(2::nat) < 4" and e3: "(3::nat) < 4" by simp_all
  from r(5) [rule_format, OF e0 e0] have d0: "draws ! 0 = [0]" unfolding b0 by simp
  from r(5) [rule_format, OF e2 e2] have d10: "draws ! 10 = [0]" unfolding b10 by simp
  from r(5) [rule_format, OF e3 e3] have d15: "set (draws ! 15) \<subseteq> {3}" unfolding b15 by simp
  have li: "length idx = 16" using r(2) by simp
  have va: "list_all (\<lambda>r. r < 5) idx" using r(3) len by (simp add: list_all_iff)
  show ?thesis
    by (intro conjI h1 h2 h3 exI [of _ idx] exI [of _ g'] exI [of _ draws] r(1) li va r(4) d0 d10 d15 r(6))
qed

text \<open>
  Claim C9. Whenever \<open>stratified_sampling\<close> returns on an array with \<open>d\<close> columns, the
  result has at least \<open>2 * d\<close> entries; its first \<open>d\<close> entries are the argmin of each
  column and the next \<open>d\<close> the argmax of each column, so for every column it contains a
  row attaining the minimum and a row attaining the maximum; from position \<open>2 * d\<close> on it
  is the array the bucket loops produced, of which the first \<open>2 * d\<close> draws are replaced.
\<close>

theorem stratified_sampling_min_max:
  assumes res: "stratified_sampling quantile g ar M = Inr (idx, g')"
    and cols: "is_array2 d ar"
  shows "2 * d \<le> length idx
       \<and> take d idx = map (\<lambda>c. np_argmin (col ar c)) [0..<d]
       \<and> take d (drop d idx) = map (\<lambda>c. np_argmax (col ar c)) [0..<d]
       \<and> (\<forall>c<d. \<exists>r\<in>set idx. r < length ar \<and> ar ! r ! c = Min (set (col ar c)))
       \<and> (\<forall>c<d. \<exists>r\<in>set idx. r < length ar \<and> ar ! r ! c = Max (set (col ar c)))
       \<and> (\<exists>idx0. bucket_draws quantile g ar M = Inr (idx0, g') \<and> length idx0 = length idx
              \<and> drop (2 * d) idx = drop (2 * d) idx0)"
proof -
  from res have ar: "ar \<noteq> []" by (auto simp: stratified_sampling_def split: if_splits)
  with cols have hd: "length (hd ar) = d" by (simp add: is_array2_hd)
  define idx_min where "idx_min = map (\<lambda>c. np_argmin (col ar c)) [0..<d]"
  define idx_max where "idx_max = map (\<lambda>c. np_argmax (col ar c)) [0..<d]"
  from res ar hd obtain idx0 where bd: "bucket_draws quantile g ar M = Inr (idx0, g')"
    and ge: "2 * d \<le> length idx0"
    and idx: "idx = idx_min @ idx_max @ drop (2 * d) idx0"
    by (auto simp: stratified_sampling_def Let_def idx_min_def idx_max_def
             split: sum.splits if_splits)
  have lmin: "length idx_min = d" and lmax: "length idx_max = d"
    by (simp_all add: idx_min_def idx_max_def)
  have len: "length idx = length idx0" using ge by (simp add: idx lmin lmax)
  have t1: "take d idx = idx_min" by (simp add: idx lmin)
  have t2: "take d (drop d idx) = idx_max" by (simp add: idx lmin lmax)
  have t3: "drop (2 * d) idx = drop (2 * d) idx0" by (simp add: idx lmin lmax)
  have colne: "col ar c \<noteq> []" for c using ar by (simp add: col_def)
  have mins: "\<exists>r\<in>set idx. r < length ar \<and> ar ! r ! c = Min (set (col ar c))" if "c < d" for c
  proof -
    from that have "idx_min ! c = np_argmin (col ar c)" by (simp add: idx_min_def)
    moreover from that lmin have "idx_min ! c \<in> set idx_min" by simp
    ultimately have mem: "np_argmin (col ar c) \<in> set idx" by (simp add: idx)
    from np_argmin_valid [OF colne, of c]
    have lt: "np_argmin (col ar c) < length ar"
      and v: "col ar c ! np_argmin (col ar c) = Min (set (col ar c))"
      by (simp_all add: length_col)
    from lt v have "ar ! np_argmin (col ar c) ! c = Min (set (col ar c))"
      by (simp add: col_def)
    with mem lt show ?thesis by blast
  qed
  have maxs: "\<exists>r\<in>set idx. r < length ar \<and> ar ! r ! c = Max (set (col ar c))" if "c < d" for c
  proof -
    from that have "idx_max ! c = np_argmax (col ar c)" by (simp add: idx_max_def)
    moreover from that lmax have "idx_max ! c \<in> set idx_max" by simp
    ultimately have mem: "np_argmax (col ar c) \<in> set idx" by (simp add: idx)
    from np_argmax_valid [OF colne, of c]
    have lt: "np_argmax (col ar c) < length ar"
      and v: "col ar c ! np_argmax (col ar c) = Max (set (col ar c))"
      by (simp_all add: length_col)
    from lt v have "ar ! np_argmax (col ar c) ! c = Max (set (col ar c))"
      by (simp add: col_def)
    with mem lt show ?thesis by blast
  qed
  from len ge t1 t2 t3 bd mins maxs show ?thesis
    unfolding idx_min_def idx_max_def by auto
qed

theorem stratified_sampling_min_max_witness:
  "\<exists>idx g'. stratified_sampling linear_quantile (\<lambda>k. k, 0) grid 40 = Inr (idx, g') \<and> is_array2 2 grid
      \<and> 4 \<le> length idx \<and> take 2 idx = [0, 0] \<and> take 2 (drop 2 idx) = [2, 1]"
proof -
  have "\<not> isl (stratified_sampling linear_quantile (\<lambda>k. k, 0) grid 40)" by code_simp
  then obtain r where "stratified_sampling linear_quantile (\<lambda>k. k, 0) grid 40 = Inr r"
    by (cases "stratified_sampling linear_quantile (\<lambda>k. k, 0) grid 40") auto
  moreover obtain idx g' where "r = (idx, g')" by (cases r)
  ultimately have run: "stratified_sampling linear_quantile (\<lambda>k. k, 0) grid 40 = Inr (idx, g')" by simp
  have h: "is_array2 2 grid" by (simp add: is_array2_def grid_def)
  have mins: "map (\<lambda>c. np_argmin (col grid c)) [0..<2] = [0, 0]" by code_simp
  have maxs: "map (\<lambda>c. np_argmax (col grid c)) [0..<2] = [2, 1]" by code_simp
  from stratified_sampling_min_max [OF run h] run h mins maxs
  show ?thesis by auto
qed

subsection \<open>An empty bucket\<close>

lemma draw2_empty: "n \<noteq> 0 \<Longrightarrow> draw2 n g [] = Inl ValueError"
  by (simp add: draw2_def random_choice_def)

lemma draw2_error: "draw2 n g b = Inl e \<Longrightarrow> e = ValueError"
  by (auto simp: draw2_def random_choice_def split: if_splits)

lemma sample_loop_raises:
  assumes mem: "b \<in> set bs"
    and bad: "\<And>g. body g b = Inl ValueError"
    and err: "\<And>g b e. body g b = Inl e \<Longrightarrow> e = ValueError"
  shows "sample_loop body bs idx g = Inl ValueError"
  using mem
proof (induction bs arbitrary: idx g)
  case Nil
  then show ?case by simp
next
  case (Cons c bs)
  show ?case
  proof (cases "body g c")
    case (Inl e)
    with err [OF Inl] show ?thesis by simp
  next
    case (Inr r)
    obtain xs g1 where r: "r = (xs, g1)" by (cases r)
    from Inr bad [of g] have "c \<noteq> b" by auto
    with Cons.prems have "b \<in> set bs" by simp
    from Cons.IH [OF this] Inr r show ?thesis by simp
  qed
qed

text \<open>
  The two-column loop has no branch for an empty bucket (the three-column loop has one):
  with \<open>M \<ge> 16\<close>, one empty bucket makes \<^verbatim>\<open>np.random.choice\<close> raise.
\<close>

lemma stratified_sampling_empty_bucket:
  assumes cols: "is_array2 2 ar" and ar: "ar \<noteq> []" and M: "16 \<le> M"
    and b: "b \<in> set buckets2" "bucket2 (quantile_table quantile 2 ar) ar b = []"
  shows "stratified_sampling quantile g ar M = Inl ValueError"
proof -
  from cols ar have hd: "length (hd ar) = 2" by (rule is_array2_hd)
  from M have n: "M div 16 \<noteq> 0" by (simp add: div_greater_zero_iff)
  have "sample_loop (\<lambda>g b. draw2 (M div 16) g (bucket2 (quantile_table quantile 2 ar) ar b)) buckets2 [] g
      = Inl ValueError"
  proof (rule sample_loop_raises [OF b(1)])
    show "draw2 (M div 16) g (bucket2 (quantile_table quantile 2 ar) ar b) = Inl ValueError" for g
      unfolding b(2) using n by (rule draw2_empty)
    show "e = ValueError" if "draw2 (M div 16) g (bucket2 (quantile_table quantile 2 ar) ar b) = Inl e" for g b e
      using that by (rule draw2_error)
  qed
  then have "bucket_draws quantile g ar M = Inl ValueError"
    by (simp add: bucket_draws_def hd)
  with ar show ?thesis by (simp add: stratified_sampling_def)
qed

lemma stratified_sampling_on_diagonal: "stratified_sampling linear_quantile g [[0, 0], [1, 1]] 16 = Inl ValueError"
proof -
  have "bucket2 (quantile_table linear_quantile 2 [[0, 0], [1, 1]]) [[0, 0], [1, 1]] (0, 3) = []"
    by code_simp
  moreover have "(0, 3) \<in> set buckets2" by (simp add: buckets2_def)
  ultimately show ?thesis
    by (intro stratified_sampling_empty_bucket [where b = "(0, 3)"]) (simp_all add: is_array2_def)
qed

section \<open>Floating-point rounding\<close>

text \<open>
  numpy computes in IEEE 754 binary floating point with rounding to nearest, ties to even.
  \<open>round_bin p x\<close> is the number with \<open>p\<close> significant bits nearest to \<open>x\<close>
  (\<open>p = 53\<close> for \<^verbatim>\<open>float64\<close>, \<open>p = 24\<close> for \<^verbatim>\<open>float32\<close>), with an unbounded
  exponent: overflow to \<^verbatim>\<open>inf\<close> and the subnormal range are left out.
  \<open>rne\<close> rounds to the nearest integer, ties to even; \<open>bexp x\<close> is the binary
  exponent of a positive \<open>x\<close>, the \<open>e\<close> with \<open>2 ^ e \<le> x < 2 ^ (e + 1)\<close>.
\<close>

definition rne :: "real \<Rightarrow> int" where
  "rne y =
     (let f = \<lfloor>y\<rfloor>; r = y - of_int f
      in if r < 1/2 then f else if 1/2 < r then f + 1 else if even f then f else f + 1)"

function bexp :: "real \<Rightarrow> int" where
  "bexp x =
     (if x \<le> 0 then 0
      else if 2 \<le> x then bexp (x / 2) + 1
      else if x < 1 then bexp (2 * x) - 1
      else 0)"
  by pat_completeness auto
termination
proof (relation "measure (\<lambda>x. if 2 \<le> x then nat \<lfloor>x\<rfloor> else if 0 < x \<and> x < 1 then nat \<lfloor>1 / x\<rfloor> else 0)")
  show "wf (measure (\<lambda>x. if 2 \<le> x then nat \<lfloor>x\<rfloor> else if 0 < x \<and> x < 1 then nat \<lfloor>1 / x\<rfloor> else 0))"
    by simp
next
  fix x :: real
  assume "\<not> x \<le> 0" "2 \<le> x"
  then have "\<lfloor>x / 2\<rfloor> < \<lfloor>x\<rfloor>" "2 \<le> \<lfloor>x\<rfloor>" by linarith+
  then show "(x / 2, x) \<in> measure (\<lambda>x. if 2 \<le> x then nat \<lfloor>x\<rfloor> else if 0 < x \<and> x < 1 then nat \<lfloor>1 / x\<rfloor> else 0)"
    using \<open>2 \<le> x\<close> by auto
next
  fix x :: real
  assume x: "\<not> x \<le> 0" "\<not> 2 \<le> x" "x < 1"
  then have "1 < 1 / x" by simp
  then have one: "1 \<le> \<lfloor>1 / x\<rfloor>" by linarith
  have "1 / (2 * x) = (1 / x) / 2" by simp
  then have "\<lfloor>1 / (2 * x)\<rfloor> < \<lfloor>1 / x\<rfloor>" using one by linarith
  then show "(2 * x, x) \<in> measure (\<lambda>x. if 2 \<le> x then nat \<lfloor>x\<rfloor> else if 0 < x \<and> x < 1 then nat \<lfloor>1 / x\<rfloor> else 0)"
    using x one by auto
qed

declare bexp.simps [simp del]

definition round_bin :: "nat \<Rightarrow> real \<Rightarrow> real" where
  "round_bin p x =
     (if x = 0 then 0
      else let u = 2 powi (bexp \<bar>x\<bar> - (int p - 1)) in of_int (rne (x / u)) * u)"


lemma rne_mono: "a \<le> b \<Longrightarrow> rne a \<le> rne b"
proof -
  assume ab: "a \<le> b"
  then have fl: "\<lfloor>a\<rfloor> \<le> \<lfloor>b\<rfloor>" by (rule floor_mono)
  have ra: "rne a \<le> \<lfloor>a\<rfloor> + 1" and rb: "\<lfloor>b\<rfloor> \<le> rne b"
    by (simp_all add: rne_def Let_def)
  show ?thesis
  proof (cases "\<lfloor>a\<rfloor> < \<lfloor>b\<rfloor>")
    case True
    with ra rb show ?thesis by linarith
  next
    case False
    with fl have eq: "\<lfloor>a\<rfloor> = \<lfloor>b\<rfloor>" by simp
    with ab have "a - of_int \<lfloor>a\<rfloor> \<le> b - of_int \<lfloor>b\<rfloor>" by simp
    then show ?thesis using eq by (auto simp: rne_def Let_def)
  qed
qed

lemma rne_of_int: "rne (of_int k) = k"
  by (simp add: rne_def)

lemma powi2_Suc: "(2::real) powi (e + 1) = 2 * 2 powi e"
  by (simp add: power_int_add)

lemma powi2_pred: "(2::real) powi (e - 1) = 2 powi e / 2"
  using powi2_Suc [of "e - 1"] by simp

lemma bexp_bounds: "0 < x \<Longrightarrow> 2 powi bexp x \<le> x \<and> x < 2 powi (bexp x + 1)"
proof (induction x rule: bexp.induct)
  case (1 x)
  show ?case
  proof (cases "2 \<le> x")
    case True
    with "1.prems" have e: "bexp x = bexp (x / 2) + 1" by (simp add: bexp.simps)
    from "1.IH"(1) True "1.prems"
    have ih: "2 powi bexp (x / 2) \<le> x / 2" "x / 2 < 2 powi (bexp (x / 2) + 1)" by simp_all
    have "(2::real) powi (bexp (x / 2) + 1 + 1) = 2 * 2 powi (bexp (x / 2) + 1)"
      by (rule powi2_Suc)
    moreover have "(2::real) powi (bexp (x / 2) + 1) = 2 * 2 powi bexp (x / 2)"
      by (rule powi2_Suc)
    ultimately show ?thesis unfolding e using ih by linarith
  next
    case False
    show ?thesis
    proof (cases "x < 1")
      case True
      with False "1.prems" have e: "bexp x = bexp (2 * x) - 1" by (simp add: bexp.simps)
      from "1.IH"(2) True False "1.prems"
      have ih: "2 powi bexp (2 * x) \<le> 2 * x" "2 * x < 2 powi (bexp (2 * x) + 1)" by simp_all
      have "(2::real) powi (bexp (2 * x) - 1) = 2 powi bexp (2 * x) / 2"
        by (rule powi2_pred)
      moreover have "(2::real) powi (bexp (2 * x) - 1 + 1) = 2 powi bexp (2 * x)" by simp
      moreover have "(2::real) powi (bexp (2 * x) + 1) = 2 * 2 powi bexp (2 * x)"
        by (rule powi2_Suc)
      ultimately show ?thesis unfolding e using ih by linarith
    next
      case ge1: False
      with False "1.prems" have e: "bexp x = 0" by (simp add: bexp.simps)
      from ge1 False show ?thesis unfolding e by simp
    qed
  qed
qed

lemma bexp_unique:
  assumes "2 powi e \<le> x" "x < 2 powi (e + 1)"
  shows "bexp x = e"
proof -
  have "(0::real) < 2 powi e" by (simp add: zero_less_power_int)
  with assms have pos: "0 < x" by linarith
  from bexp_bounds [OF pos] have b: "2 powi bexp x \<le> x" "x < 2 powi (bexp x + 1)" by simp_all
  have "\<not> bexp x < e"
  proof
    assume "bexp x < e"
    then have "bexp x + 1 \<le> e" by simp
    then have "(2::real) powi (bexp x + 1) \<le> 2 powi e" by (intro power_int_increasing) simp_all
    with b(2) assms(1) show False by linarith
  qed
  moreover have "\<not> e < bexp x"
  proof
    assume "e < bexp x"
    then have "e + 1 \<le> bexp x" by simp
    then have "(2::real) powi (e + 1) \<le> 2 powi bexp x" by (intro power_int_increasing) simp_all
    with b(1) assms(2) show False by linarith
  qed
  ultimately show ?thesis by simp
qed

lemma bexp_mono:
  assumes "0 < x" "x \<le> y"
  shows "bexp x \<le> bexp y"
proof (rule ccontr)
  assume "\<not> bexp x \<le> bexp y"
  then have "bexp y + 1 \<le> bexp x" by simp
  then have "(2::real) powi (bexp y + 1) \<le> 2 powi bexp x" by (intro power_int_increasing) simp_all
  moreover from assms have "0 < y" by simp
  ultimately show False using bexp_bounds [OF assms(1)] bexp_bounds [OF \<open>0 < y\<close>] assms(2)
    by linarith
qed

lemma rne_minus: "rne (- y) = - rne y"
proof (cases "y = of_int \<lfloor>y\<rfloor>")
  case True
  then obtain k where "y = of_int k" ..
  then have "rne y = k" "rne (- y) = - k"
    using rne_of_int [of k] rne_of_int [of "- k"] by simp_all
  then show ?thesis by simp
next
  case False
  from False have "of_int \<lfloor>y\<rfloor> \<noteq> y" by (rule not_sym)
  then have lt: "of_int \<lfloor>y\<rfloor> < y"
    by (rule order.not_eq_order_implies_strict) (rule of_int_floor_le)
  have a: "of_int (- \<lfloor>y\<rfloor> - 1) \<le> - y" by simp linarith
  from lt have b: "- y < of_int (- \<lfloor>y\<rfloor> - 1) + 1" by simp
  from a b have fl: "\<lfloor>- y\<rfloor> = - \<lfloor>y\<rfloor> - 1" by (rule floor_unique)
  have par: "even (- \<lfloor>y\<rfloor> - 1) \<longleftrightarrow> odd \<lfloor>y\<rfloor>" by simp
  define f where "f = \<lfloor>y\<rfloor>"
  define r where "r = y - of_int f"
  have y: "y = of_int f + r" by (simp add: r_def)
  have r': "- y - of_int (- f - 1) = 1 - r" by (simp add: r_def)
  have "rne y = (if r < 1/2 then f else if 1/2 < r then f + 1 else if even f then f else f + 1)"
    by (simp add: rne_def Let_def f_def r_def)
  moreover have "rne (- y) = (if 1 - r < 1/2 then - f - 1 else if 1/2 < 1 - r then - f
       else if odd f then - f - 1 else - f)"
    unfolding rne_def Let_def fl par f_def [symmetric] r' by simp
  ultimately show ?thesis by auto
qed


lemma round_bin_minus: "round_bin p (- x) = - round_bin p x"
  by (simp add: round_bin_def Let_def rne_minus)

lemma powi2_split:
  assumes p: "1 \<le> p"
  shows "(2::real) powi e = 2 ^ (p - 1) * 2 powi (e - (int p - 1))"
proof -
  from p obtain n where pn: "p = Suc n" by (cases p) auto
  have "(2::real) powi (int n + (e - int n)) = 2 powi int n * 2 powi (e - int n)"
    by (rule power_int_add) simp
  then show ?thesis unfolding pn by simp
qed

lemma powi2_split_Suc:
  assumes p: "1 \<le> p"
  shows "(2::real) powi (e + 1) = 2 ^ p * 2 powi (e - (int p - 1))"
proof -
  from p obtain n where pn: "p = Suc n" by (cases p) auto
  have "(2::real) powi (e + 1) = 2 * 2 powi e" by (rule powi2_Suc)
  also have "(2::real) powi e = 2 ^ (p - 1) * 2 powi (e - (int p - 1))" by (rule powi2_split [OF p])
  finally show ?thesis unfolding pn by simp
qed

text \<open>The integer mantissa of a positive number lies between \<open>2 ^ (p - 1)\<close> and \<open>2 ^ p\<close>.\<close>

lemma mantissa_bounds:
  assumes x: "0 < x" and p: "1 \<le> p"
  defines "u \<equiv> 2 powi (bexp x - (int p - 1))"
  shows "(2::real) ^ (p - 1) \<le> of_int (rne (x / u))" "of_int (rne (x / u)) \<le> (2::real) ^ p"
proof -
  have u: "0 < u" by (simp add: u_def zero_less_power_int)
  from bexp_bounds [OF x] have b: "2 powi bexp x \<le> x" "x < 2 powi (bexp x + 1)" by simp_all
  have lo: "(2::real) powi bexp x = 2 ^ (p - 1) * u" unfolding u_def by (rule powi2_split [OF p])
  have hi: "(2::real) powi (bexp x + 1) = 2 ^ p * u" unfolding u_def by (rule powi2_split_Suc [OF p])
  from b(1) lo u have "2 ^ (p - 1) \<le> x / u" by (simp add: pos_le_divide_eq)
  then have "rne (of_int (2 ^ (p - 1))) \<le> rne (x / u)" by (intro rne_mono) simp
  then have "2 ^ (p - 1) \<le> rne (x / u)" by (simp only: rne_of_int)
  then have "(of_int (2 ^ (p - 1)) :: real) \<le> of_int (rne (x / u))" by (simp only: of_int_le_iff)
  then show "(2::real) ^ (p - 1) \<le> of_int (rne (x / u))" by simp
  from b(2) hi u have "x / u \<le> 2 ^ p" by (simp add: pos_divide_le_eq)
  then have "rne (x / u) \<le> rne (of_int (2 ^ p))" by (intro rne_mono) simp
  then have "rne (x / u) \<le> 2 ^ p" by (simp only: rne_of_int)
  then have "(of_int (rne (x / u)) :: real) \<le> of_int (2 ^ p)" by (simp only: of_int_le_iff)
  then show "of_int (rne (x / u)) \<le> (2::real) ^ p" by simp
qed

lemma round_bin_pos:
  "0 < x \<Longrightarrow> round_bin p x = of_int (rne (x / 2 powi (bexp x - (int p - 1)))) * 2 powi (bexp x - (int p - 1))"
  by (simp add: round_bin_def Let_def)

lemma round_bin_pos_bounds:
  assumes x: "0 < x" and p: "1 \<le> p"
  shows "2 powi bexp x \<le> round_bin p x" "round_bin p x \<le> 2 powi (bexp x + 1)"
proof -
  define u where "u = (2::real) powi (bexp x - (int p - 1))"
  have u: "0 < u" by (simp add: u_def zero_less_power_int)
  note m = mantissa_bounds [OF x p, folded u_def]
  have r: "round_bin p x = of_int (rne (x / u)) * u" unfolding u_def by (rule round_bin_pos [OF x])
  have lo: "(2::real) powi bexp x = 2 ^ (p - 1) * u" unfolding u_def by (rule powi2_split [OF p])
  have hi: "(2::real) powi (bexp x + 1) = 2 ^ p * u" unfolding u_def by (rule powi2_split_Suc [OF p])
  from m(1) u show "2 powi bexp x \<le> round_bin p x" unfolding lo r by simp
  from m(2) u show "round_bin p x \<le> 2 powi (bexp x + 1)" unfolding hi r by simp
qed

lemma round_bin_pos_gt0: "0 < x \<Longrightarrow> 1 \<le> p \<Longrightarrow> 0 < round_bin p x"
proof -
  assume "0 < x" "1 \<le> p"
  then have "2 powi bexp x \<le> round_bin p x" by (rule round_bin_pos_bounds)
  moreover have "(0::real) < 2 powi bexp x" by (simp add: zero_less_power_int)
  ultimately show ?thesis by linarith
qed

lemma round_bin_mono_pos:
  assumes x: "0 < x" and xy: "x \<le> y" and p: "1 \<le> p"
  shows "round_bin p x \<le> round_bin p y"
proof -
  from x xy have y: "0 < y" by simp
  from bexp_mono [OF x xy] have e: "bexp x \<le> bexp y" .
  show ?thesis
  proof (cases "bexp x = bexp y")
    case True
    define u where "u = (2::real) powi (bexp x - (int p - 1))"
    have u: "0 < u" by (simp add: u_def zero_less_power_int)
    have rx: "round_bin p x = of_int (rne (x / u)) * u" unfolding u_def by (rule round_bin_pos [OF x])
    have ry: "round_bin p y = of_int (rne (y / u)) * u" unfolding u_def True by (rule round_bin_pos [OF y])
    from xy u have "x / u \<le> y / u" by (simp add: divide_right_mono)
    then have "rne (x / u) \<le> rne (y / u)" by (rule rne_mono)
    then have "(of_int (rne (x / u)) :: real) \<le> of_int (rne (y / u))" by (simp only: of_int_le_iff)
    with u show ?thesis unfolding rx ry by simp
  next
    case False
    with e have "bexp x + 1 \<le> bexp y" by simp
    then have "(2::real) powi (bexp x + 1) \<le> 2 powi bexp y" by (intro power_int_increasing) simp_all
    with round_bin_pos_bounds(2) [OF x p] round_bin_pos_bounds(1) [OF y p]
    show ?thesis by linarith
  qed
qed

lemma round_bin_mono:
  assumes xy: "x \<le> y" and p: "1 \<le> p"
  shows "round_bin p x \<le> round_bin p y"
proof -
  consider "0 < x" | "x \<le> 0" "0 \<le> y" | "y < 0" using xy by linarith
  then show ?thesis
  proof cases
    case 1
    then show ?thesis using xy p by (rule round_bin_mono_pos)
  next
    case 2
    have "round_bin p x \<le> 0"
    proof (cases "x = 0")
      case True
      then show ?thesis by (simp add: round_bin_def)
    next
      case False
      with 2 have "0 < - x" by simp
      from round_bin_pos_gt0 [OF this p] show ?thesis by (simp add: round_bin_minus)
    qed
    moreover have "0 \<le> round_bin p y"
    proof (cases "y = 0")
      case True
      then show ?thesis by (simp add: round_bin_def)
    next
      case False
      with 2 have "0 < y" by simp
      from round_bin_pos_gt0 [OF this p] show ?thesis by simp
    qed
    ultimately show ?thesis by linarith
  next
    case 3
    with xy have "0 < - y" "- y \<le> - x" by simp_all
    from round_bin_mono_pos [OF this p] show ?thesis by (simp add: round_bin_minus)
  qed
qed

lemma round_bin_0: "round_bin p 0 = 0"
  by (simp add: round_bin_def)

lemma rne_pow2: "rne ((2::real) ^ n) = 2 ^ n"
proof -
  have "rne (of_int (2 ^ n)) = 2 ^ n" by (rule rne_of_int)
  then show ?thesis by simp
qed

lemma round_bin_pow2:
  assumes p: "1 \<le> p"
  shows "round_bin p (2 powi e) = 2 powi e"
proof -
  define u where "u = (2::real) powi (e - (int p - 1))"
  have u: "0 < u" by (simp add: u_def zero_less_power_int)
  have pos: "(0::real) < 2 powi e" by (simp add: zero_less_power_int)
  have "(2::real) powi e < 2 powi (e + 1)" by (intro power_int_strict_increasing) simp_all
  then have be: "bexp (2 powi e) = e" by (intro bexp_unique) simp_all
  have split: "(2::real) powi e = 2 ^ (p - 1) * u" unfolding u_def by (rule powi2_split [OF p])
  with u have "2 powi e / u = 2 ^ (p - 1)" by simp
  then have "rne (2 powi e / u) = 2 ^ (p - 1)" by (simp only: rne_pow2)
  then have "round_bin p (2 powi e) = of_int (2 ^ (p - 1)) * u"
    unfolding round_bin_pos [OF pos] be u_def by simp
  with split show ?thesis by simp
qed

lemma round_bin_1: "1 \<le> p \<Longrightarrow> round_bin p 1 = 1"
  using round_bin_pow2 [of p 0] by simp

lemma round_bin_idem_pos:
  assumes x: "0 < x" and p: "1 \<le> p"
  shows "round_bin p (round_bin p x) = round_bin p x"
proof -
  define u where "u = (2::real) powi (bexp x - (int p - 1))"
  define K where "K = rne (x / u)"
  have u: "0 < u" by (simp add: u_def zero_less_power_int)
  note m = mantissa_bounds [OF x p, folded u_def, folded K_def]
  have r: "round_bin p x = of_int K * u" unfolding u_def K_def by (rule round_bin_pos [OF x])
  have lo: "(2::real) powi bexp x = 2 ^ (p - 1) * u" unfolding u_def by (rule powi2_split [OF p])
  have hi: "(2::real) powi (bexp x + 1) = 2 ^ p * u" unfolding u_def by (rule powi2_split_Suc [OF p])
  show ?thesis
  proof (cases "of_int K = (2::real) ^ p")
    case True
    then have "round_bin p x = 2 powi (bexp x + 1)" unfolding r hi by simp
    then show ?thesis by (simp only: round_bin_pow2 [OF p])
  next
    case False
    with m(2) have "of_int K < (2::real) ^ p" by simp
    with u have "of_int K * u < 2 ^ p * u" by simp
    then have up: "round_bin p x < 2 powi (bexp x + 1)" unfolding r hi .
    from m(1) u have "2 ^ (p - 1) * u \<le> of_int K * u" by simp
    then have low: "2 powi bexp x \<le> round_bin p x" unfolding r lo .
    from low up have be: "bexp (round_bin p x) = bexp x" by (rule bexp_unique)
    have pos: "0 < round_bin p x" using x p by (rule round_bin_pos_gt0)
    have "round_bin p (round_bin p x) =
        of_int (rne (round_bin p x / 2 powi (bexp (round_bin p x) - (int p - 1))))
          * 2 powi (bexp (round_bin p x) - (int p - 1))"
      by (rule round_bin_pos [OF pos])
    then have rr: "round_bin p (round_bin p x) = of_int (rne (round_bin p x / u)) * u"
      unfolding be u_def .
    from u have "round_bin p x / u = of_int K" unfolding r by simp
    then have "rne (round_bin p x / u) = K" by (simp only: rne_of_int)
    then show ?thesis unfolding rr unfolding r by simp
  qed
qed

lemma round_bin_idem:
  assumes p: "1 \<le> p"
  shows "round_bin p (round_bin p x) = round_bin p x"
proof -
  consider "0 < x" | "x = 0" | "0 < - x" by linarith
  then show ?thesis
  proof cases
    case 1
    then show ?thesis using p by (rule round_bin_idem_pos)
  next
    case 2
    then show ?thesis by (simp add: round_bin_0)
  next
    case 3
    from round_bin_idem_pos [OF this p] show ?thesis by (simp add: round_bin_minus)
  qed
qed

lemma round_bin_gt0: "0 < x \<Longrightarrow> 1 \<le> p \<Longrightarrow> 0 < round_bin p x"
  by (rule round_bin_pos_gt0)

text \<open>
  What the proofs below use of a rounding operator: it is monotone, it keeps 0 and 1, it
  keeps the sign of a positive number, and a rounded number rounds to itself. Rounding to
  \<open>p \<ge> 1\<close> bits has these properties, and so has exact arithmetic.
\<close>

definition rounding :: "(real \<Rightarrow> real) \<Rightarrow> bool" where
  "rounding rnd \<longleftrightarrow>
     (\<forall>x y. x \<le> y \<longrightarrow> rnd x \<le> rnd y) \<and> rnd 0 = 0 \<and> rnd 1 = 1
     \<and> (\<forall>x. 0 < x \<longrightarrow> 0 < rnd x) \<and> (\<forall>x. rnd (rnd x) = rnd x)"

lemma rounding_round_bin: "1 \<le> p \<Longrightarrow> rounding (round_bin p)"
  unfolding rounding_def
  using round_bin_mono [of _ _ p] round_bin_0 [of p] round_bin_1 [of p]
    round_bin_gt0 [of _ p] round_bin_idem [of p]
  by simp

lemma rounding_exact: "rounding (\<lambda>x. x)"
  by (simp add: rounding_def)

section \<open>Rescaling\<close>

text \<open>\<^verbatim>\<open>np.min(ar, axis=0)\<close> and \<^verbatim>\<open>np.max(ar, axis=0)\<close>: the least and greatest element of every column.\<close>

definition col_mins :: "real list list \<Rightarrow> real list" where
  "col_mins ar = map (\<lambda>c. Min (set (col ar c))) [0..<length (hd ar)]"

definition col_maxs :: "real list list \<Rightarrow> real list" where
  "col_maxs ar = map (\<lambda>c. Max (set (col ar c))) [0..<length (hd ar)]"

text \<open>
  The training loop rescales the inputs by
  \<^verbatim>\<open>rates_sc_ = (rates_ - np.min(rates_, axis=0)) / (np.max(rates_, axis=0) - np.min(rates_, axis=0) + 1e-16)\<close>.
  Each of the four operations rounds its result, and the literal \<^verbatim>\<open>1e-16\<close> is the rounded
  \<open>1 / 10 ^ 16\<close>. \<open>rescale_x\<close> is one element of the result. A denominator 0, on which
  numpy would produce \<^verbatim>\<open>nan\<close> or \<^verbatim>\<open>inf\<close>, stops the model; under a rounding operator
  the denominator is positive (\<open>rescale_den_pos\<close> below), so this is never the case.
\<close>

definition rescale_x :: "(real \<Rightarrow> real) \<Rightarrow> real \<Rightarrow> real \<Rightarrow> real \<Rightarrow> real" where
  "rescale_x rnd mn mx x = rnd (rnd (x - mn) / rnd (rnd (mx - mn) + rnd (1 / 10 ^ 16)))"

definition rescale_inputs :: "(real \<Rightarrow> real) \<Rightarrow> real list list \<Rightarrow> error + real list list" where
  "rescale_inputs rnd rates =
     (if rates = [] then Inl ValueError
      else
        let mn = col_mins rates; mx = col_maxs rates
        in if list_ex (\<lambda>c. rnd (rnd (mx ! c - mn ! c) + rnd (1 / 10 ^ 16)) = 0)
                [0..<length (hd rates)]
           then Inl NotFinite
           else Inr (map (\<lambda>row. map (\<lambda>c. rescale_x rnd (mn ! c) (mx ! c) (row ! c))
                                     [0..<length (hd rates)]) rates))"

text \<open>
  The targets: \<^verbatim>\<open>(irs_prices - min) / (max - min)\<close> when the computed \<^verbatim>\<open>max - min\<close> is not 0,
  and \<^verbatim>\<open>irs_prices - min\<close> otherwise. \<^verbatim>\<open>np.min\<close> raises ValueError on an empty array.
\<close>

definition rescale_prices :: "(real \<Rightarrow> real) \<Rightarrow> real list \<Rightarrow> error + real list" where
  "rescale_prices rnd irs_prices =
     (if irs_prices = [] then Inl ValueError
      else
        let mn = Min (set irs_prices); mx = Max (set irs_prices)
        in if rnd (mx - mn) \<noteq> 0
           then Inr (map (\<lambda>p. rnd (rnd (p - mn) / rnd (mx - mn))) irs_prices)
           else Inr (map (\<lambda>p. rnd (p - mn)) irs_prices))"

lemma roundingD:
  assumes "rounding rnd"
  shows "x \<le> y \<Longrightarrow> rnd x \<le> rnd y" "rnd 0 = 0" "rnd 1 = 1" "0 < x \<Longrightarrow> 0 < rnd x"
    "rnd (rnd x) = rnd x"
  using assms unfolding rounding_def by blast+

lemma rounding_nonneg: "rounding rnd \<Longrightarrow> 0 \<le> x \<Longrightarrow> 0 \<le> rnd x"
  using roundingD(1) [of rnd 0 x] roundingD(2) [of rnd] by simp

lemma rescale_den_pos:
  assumes rnd: "rounding rnd" and le: "mn \<le> mx"
  shows "0 < rnd (rnd (mx - mn) + rnd (1 / 10 ^ 16))"
    and "rnd (mx - mn) \<le> rnd (rnd (mx - mn) + rnd (1 / 10 ^ 16))"
proof -
  from le have "0 \<le> rnd (mx - mn)" by (intro rounding_nonneg [OF rnd]) simp
  moreover have eps: "0 < rnd (1 / 10 ^ 16)" by (intro roundingD(4) [OF rnd]) simp
  ultimately have "0 < rnd (mx - mn) + rnd (1 / 10 ^ 16)" by linarith
  then show "0 < rnd (rnd (mx - mn) + rnd (1 / 10 ^ 16))" by (rule roundingD(4) [OF rnd])
  from eps have "rnd (mx - mn) \<le> rnd (mx - mn) + rnd (1 / 10 ^ 16)" by simp
  then have "rnd (rnd (mx - mn)) \<le> rnd (rnd (mx - mn) + rnd (1 / 10 ^ 16))"
    by (rule roundingD(1) [OF rnd])
  then show "rnd (mx - mn) \<le> rnd (rnd (mx - mn) + rnd (1 / 10 ^ 16))"
    by (simp only: roundingD(5) [OF rnd])
qed

lemma rescale_x_range:
  assumes rnd: "rounding rnd" and lo: "mn \<le> x" and hi: "x \<le> mx"
  shows "0 \<le> rescale_x rnd mn mx x" "rescale_x rnd mn mx x \<le> 1"
proof -
  define den where "den = rnd (rnd (mx - mn) + rnd (1 / 10 ^ 16))"
  from lo hi have le: "mn \<le> mx" by simp
  from rescale_den_pos [OF rnd le] have den: "0 < den" "rnd (mx - mn) \<le> den"
    by (simp_all add: den_def)
  from lo have num0: "0 \<le> rnd (x - mn)" by (intro rounding_nonneg [OF rnd]) simp
  from hi have "rnd (x - mn) \<le> rnd (mx - mn)" by (intro roundingD(1) [OF rnd]) simp
  with den(2) have num1: "rnd (x - mn) \<le> den" by linarith
  from num0 den(1) have "0 \<le> rnd (x - mn) / den" by simp
  then have "0 \<le> rnd (rnd (x - mn) / den)" by (rule rounding_nonneg [OF rnd])
  then show "0 \<le> rescale_x rnd mn mx x" by (simp add: rescale_x_def den_def)
  from num1 den(1) have "rnd (x - mn) / den \<le> 1" by simp
  then have "rnd (rnd (x - mn) / den) \<le> rnd 1" by (rule roundingD(1) [OF rnd])
  then show "rescale_x rnd mn mx x \<le> 1"
    by (simp add: rescale_x_def den_def roundingD(3) [OF rnd])
qed

lemma rescale_x_min: "rounding rnd \<Longrightarrow> rescale_x rnd mn mx mn = 0"
  by (simp add: rescale_x_def roundingD(2))

lemma col_nth_bounds:
  assumes "r < length ar"
  shows "Min (set (col ar c)) \<le> ar ! r ! c" "ar ! r ! c \<le> Max (set (col ar c))"
proof -
  from assms have "ar ! r ! c \<in> set (col ar c)" by (auto simp: col_def)
  then show "Min (set (col ar c)) \<le> ar ! r ! c" "ar ! r ! c \<le> Max (set (col ar c))"
    by simp_all
qed

lemma rescale_inputs_Inr:
  assumes rnd: "rounding rnd" and ne: "rates \<noteq> []"
  shows "rescale_inputs rnd rates =
     Inr (map (\<lambda>row. map (\<lambda>c. rescale_x rnd (col_mins rates ! c) (col_maxs rates ! c) (row ! c))
                          [0..<length (hd rates)]) rates)"
proof -
  have "rnd (rnd (col_maxs rates ! c - col_mins rates ! c) + rnd (1 / 10 ^ 16)) \<noteq> 0"
    if c: "c < length (hd rates)" for c
  proof -
    from ne have "0 < length rates" by simp
    from col_nth_bounds [OF this, of c]
    have "Min (set (col rates c)) \<le> Max (set (col rates c))" by linarith
    with c have "col_mins rates ! c \<le> col_maxs rates ! c"
      by (simp add: col_mins_def col_maxs_def)
    from rescale_den_pos(1) [OF rnd this] show ?thesis by simp
  qed
  with ne show ?thesis by (simp add: rescale_inputs_def Let_def list_ex_iff)
qed

lemma rescale_prices_Inr:
  assumes rnd: "rounding rnd" and ne: "irs_prices \<noteq> []"
  shows "rescale_prices rnd irs_prices =
     Inr (map (\<lambda>p. if Max (set irs_prices) \<noteq> Min (set irs_prices)
                    then rnd (rnd (p - Min (set irs_prices))
                              / rnd (Max (set irs_prices) - Min (set irs_prices)))
                    else 0) irs_prices)"
proof (cases "Max (set irs_prices) = Min (set irs_prices)")
  case True
  have "p = Min (set irs_prices)" if "p \<in> set irs_prices" for p
  proof -
    from that have "Min (set irs_prices) \<le> p" "p \<le> Max (set irs_prices)" by simp_all
    with True show ?thesis by simp
  qed
  then have "map (\<lambda>p. rnd (p - Min (set irs_prices))) irs_prices = map (\<lambda>p. 0) irs_prices"
    by (intro map_cong) (simp_all add: roundingD(2) [OF rnd])
  with ne True show ?thesis
    by (simp add: rescale_prices_def Let_def roundingD(2) [OF rnd])
next
  case False
  from ne have "Min (set irs_prices) \<le> Max (set irs_prices)" by simp
  with False have "0 < Max (set irs_prices) - Min (set irs_prices)" by simp
  from roundingD(4) [OF rnd this] have "rnd (Max (set irs_prices) - Min (set irs_prices)) \<noteq> 0"
    by simp
  with ne False show ?thesis by (simp add: rescale_prices_def Let_def)
qed

text \<open>
  Claim C5, as amended. For every array of training inputs with at least one row and every
  non-empty array of prices, both rescalings return. Each rescaled input is the rounded
  quotient of \<open>x - min\<close> and \<open>max - min + 1e-16\<close> of its column, lies in the closed
  interval from 0 to 1, and is exactly 0 at a column minimum; at the maximum of a column
  that is not constant it is exactly 1 whenever the sum \<open>max - min + 1e-16\<close> rounds to
  \<open>max - min\<close>. Each rescaled price lies between 0 and 1; it is 0 at the minimum price, 1
  at the maximum price when the maximum and the minimum differ, and every rescaled price is
  0 when they are equal. This holds for every rounding operator with the properties of
  \<open>rounding\<close>, so in \<^verbatim>\<open>float64\<close>, in \<^verbatim>\<open>float32\<close> and in exact arithmetic.
\<close>

theorem rescale_training_data:
  assumes rnd: "rounding rnd" and arr: "is_array2 d rates" and ne: "rates \<noteq> []"
    and pne: "irs_prices \<noteq> []"
  shows "\<exists>sx sy.
      rescale_inputs rnd rates = Inr sx \<and> rescale_prices rnd irs_prices = Inr sy
    \<and> length sx = length rates \<and> length sy = length irs_prices
    \<and> (\<forall>r<length rates. \<forall>c<d.
          sx ! r ! c = rnd (rnd (rates ! r ! c - Min (set (col rates c)))
                            / rnd (rnd (Max (set (col rates c)) - Min (set (col rates c)))
                                   + rnd (1 / 10 ^ 16)))
        \<and> 0 \<le> sx ! r ! c \<and> sx ! r ! c \<le> 1
        \<and> (rates ! r ! c = Min (set (col rates c)) \<longrightarrow> sx ! r ! c = 0)
        \<and> (rnd (rnd (Max (set (col rates c)) - Min (set (col rates c))) + rnd (1 / 10 ^ 16))
               = rnd (Max (set (col rates c)) - Min (set (col rates c))) \<longrightarrow>
             Min (set (col rates c)) < Max (set (col rates c)) \<longrightarrow>
             rates ! r ! c = Max (set (col rates c)) \<longrightarrow> sx ! r ! c = 1))
    \<and> (\<forall>k<length irs_prices.
          0 \<le> sy ! k \<and> sy ! k \<le> 1
        \<and> (irs_prices ! k = Min (set irs_prices) \<longrightarrow> sy ! k = 0)
        \<and> (Max (set irs_prices) \<noteq> Min (set irs_prices) \<longrightarrow>
             irs_prices ! k = Max (set irs_prices) \<longrightarrow> sy ! k = 1)
        \<and> (Max (set irs_prices) = Min (set irs_prices) \<longrightarrow> sy ! k = 0))"
proof -
  define sx where "sx = map (\<lambda>row. map (\<lambda>c. rescale_x rnd (col_mins rates ! c) (col_maxs rates ! c) (row ! c))
                          [0..<length (hd rates)]) rates"
  define mn where "mn = Min (set irs_prices)"
  define mx where "mx = Max (set irs_prices)"
  define sy where "sy = map (\<lambda>p. if mx \<noteq> mn then rnd (rnd (p - mn) / rnd (mx - mn)) else 0) irs_prices"
  have rx: "rescale_inputs rnd rates = Inr sx"
    unfolding sx_def by (rule rescale_inputs_Inr [OF rnd ne])
  have ry: "rescale_prices rnd irs_prices = Inr sy"
    unfolding sy_def mn_def mx_def by (rule rescale_prices_Inr [OF rnd pne])
  from arr ne have hd: "length (hd rates) = d" by (rule is_array2_hd)
  have X: "sx ! r ! c = rnd (rnd (rates ! r ! c - Min (set (col rates c)))
                            / rnd (rnd (Max (set (col rates c)) - Min (set (col rates c)))
                                   + rnd (1 / 10 ^ 16)))
        \<and> 0 \<le> sx ! r ! c \<and> sx ! r ! c \<le> 1
        \<and> (rates ! r ! c = Min (set (col rates c)) \<longrightarrow> sx ! r ! c = 0)
        \<and> (rnd (rnd (Max (set (col rates c)) - Min (set (col rates c))) + rnd (1 / 10 ^ 16))
               = rnd (Max (set (col rates c)) - Min (set (col rates c))) \<longrightarrow>
             Min (set (col rates c)) < Max (set (col rates c)) \<longrightarrow>
             rates ! r ! c = Max (set (col rates c)) \<longrightarrow> sx ! r ! c = 1)"
    if r: "r < length rates" and c: "c < d" for r c
  proof -
    from r c have v: "sx ! r ! c
        = rescale_x rnd (Min (set (col rates c))) (Max (set (col rates c))) (rates ! r ! c)"
      by (simp add: sx_def hd col_mins_def col_maxs_def)
    from col_nth_bounds [OF r, of c]
    have b: "Min (set (col rates c)) \<le> rates ! r ! c" "rates ! r ! c \<le> Max (set (col rates c))"
      by simp_all
    have one: "sx ! r ! c = 1"
      if ab: "rnd (rnd (Max (set (col rates c)) - Min (set (col rates c))) + rnd (1 / 10 ^ 16))
               = rnd (Max (set (col rates c)) - Min (set (col rates c)))"
        and lt: "Min (set (col rates c)) < Max (set (col rates c))"
        and mx: "rates ! r ! c = Max (set (col rates c))"
    proof -
      from lt have "0 < Max (set (col rates c)) - Min (set (col rates c))" by simp
      then have "0 < rnd (Max (set (col rates c)) - Min (set (col rates c)))"
        by (rule roundingD(4) [OF rnd])
      then have "rnd (Max (set (col rates c)) - Min (set (col rates c)))
          / rnd (Max (set (col rates c)) - Min (set (col rates c))) = 1" by simp
      then show ?thesis
        unfolding v rescale_x_def mx ab by (simp only: roundingD(3) [OF rnd])
    qed
    from rescale_x_range [OF rnd b] rescale_x_min [OF rnd] v
    have "sx ! r ! c = rnd (rnd (rates ! r ! c - Min (set (col rates c)))
                            / rnd (rnd (Max (set (col rates c)) - Min (set (col rates c)))
                                   + rnd (1 / 10 ^ 16)))
        \<and> 0 \<le> sx ! r ! c \<and> sx ! r ! c \<le> 1
        \<and> (rates ! r ! c = Min (set (col rates c)) \<longrightarrow> sx ! r ! c = 0)"
      by (auto simp: rescale_x_def)
    with one show ?thesis by blast
  qed
  have Y: "0 \<le> sy ! k \<and> sy ! k \<le> 1
        \<and> (irs_prices ! k = mn \<longrightarrow> sy ! k = 0)
        \<and> (mx \<noteq> mn \<longrightarrow> irs_prices ! k = mx \<longrightarrow> sy ! k = 1)
        \<and> (mx = mn \<longrightarrow> sy ! k = 0)"
    if k: "k < length irs_prices" for k
  proof (cases "mx = mn")
    case True
    with k show ?thesis by (simp add: sy_def)
  next
    case False
    from k have mem: "irs_prices ! k \<in> set irs_prices" by simp
    then have lo: "mn \<le> irs_prices ! k" and hi: "irs_prices ! k \<le> mx"
      by (simp_all add: mn_def mx_def)
    from lo hi False have "0 < mx - mn" by simp
    then have den: "0 < rnd (mx - mn)" by (rule roundingD(4) [OF rnd])
    from lo have n0: "0 \<le> rnd (irs_prices ! k - mn)" by (intro rounding_nonneg [OF rnd]) simp
    from hi have n1: "rnd (irs_prices ! k - mn) \<le> rnd (mx - mn)"
      by (intro roundingD(1) [OF rnd]) simp
    from False k have v: "sy ! k = rnd (rnd (irs_prices ! k - mn) / rnd (mx - mn))"
      by (simp add: sy_def)
    from n0 den have "0 \<le> rnd (irs_prices ! k - mn) / rnd (mx - mn)" by simp
    then have a: "0 \<le> sy ! k" unfolding v by (rule rounding_nonneg [OF rnd])
    from n1 den have "rnd (irs_prices ! k - mn) / rnd (mx - mn) \<le> 1" by simp
    then have "sy ! k \<le> rnd 1" unfolding v by (rule roundingD(1) [OF rnd])
    then have b: "sy ! k \<le> 1" by (simp add: roundingD(3) [OF rnd])
    have c: "sy ! k = 0" if "irs_prices ! k = mn"
      using that by (simp add: v roundingD(2) [OF rnd])
    have d: "sy ! k = 1" if "irs_prices ! k = mx"
      using that den by (simp add: v roundingD(3) [OF rnd])
    from a b c d False show ?thesis by blast
  qed
  have "length sx = length rates" "length sy = length irs_prices"
    by (simp_all add: sx_def sy_def)
  with rx ry X Y show ?thesis unfolding mn_def mx_def by blast
qed

theorem rescale_training_data_witness:
  "rounding (round_bin 53) \<and> is_array2 2 [[0, 0], [2, 1 / 2]]
   \<and> (\<exists>sx sy. rescale_inputs (round_bin 53) [[0, 0], [2, 1 / 2]] = Inr sx
          \<and> rescale_prices (round_bin 53) [1 / 3, 5, 7] = Inr sy
          \<and> sx ! 0 ! 0 = 0 \<and> 0 \<le> sx ! 1 ! 1 \<and> sx ! 1 ! 1 \<le> 1 \<and> sx ! 1 ! 0 = 1
          \<and> sy ! 0 = 0 \<and> 0 \<le> sy ! 1 \<and> sy ! 1 \<le> 1 \<and> sy ! 2 = 1)"
proof -
  define rates :: "real list list" where "rates = [[0, 0], [2, 1 / 2]]"
  define ps :: "real list" where "ps = [1 / 3, 5, 7]"
  have h1: "rounding (round_bin 53)" by (rule rounding_round_bin) simp
  have h2: "is_array2 2 rates" by (simp add: is_array2_def rates_def)
  have h3: "rates \<noteq> []" by (simp add: rates_def)
  have h4: "ps \<noteq> []" by (simp add: ps_def)
  have lr: "0 < length rates" "1 < length rates" by (simp_all add: rates_def)
  have lp: "0 < length ps" "1 < length ps" "2 < length ps" by (simp_all add: ps_def)
  have m0: "rates ! 0 ! 0 = Min (set (col rates 0))" by (simp add: col_def rates_def)
  have p0: "ps ! 0 = Min (set ps)" by (simp add: ps_def)
  have p2: "ps ! 2 = Max (set ps)" by (simp add: ps_def)
  have pd: "Max (set ps) \<noteq> Min (set ps)" by (simp add: ps_def)
  from rescale_training_data [OF h1 h2 h3 h4] obtain sx sy where
    r: "rescale_inputs (round_bin 53) rates = Inr sx" "rescale_prices (round_bin 53) ps = Inr sy"
    and X: "\<And>r c. r < length rates \<Longrightarrow> c < 2 \<Longrightarrow>
        0 \<le> sx ! r ! c \<and> sx ! r ! c \<le> 1
        \<and> (rates ! r ! c = Min (set (col rates c)) \<longrightarrow> sx ! r ! c = 0)
        \<and> (round_bin 53 (round_bin 53 (Max (set (col rates c)) - Min (set (col rates c)))
                            + round_bin 53 (1 / 10 ^ 16))
               = round_bin 53 (Max (set (col rates c)) - Min (set (col rates c))) \<longrightarrow>
             Min (set (col rates c)) < Max (set (col rates c)) \<longrightarrow>
             rates ! r ! c = Max (set (col rates c)) \<longrightarrow> sx ! r ! c = 1)"
    and Y: "\<And>k. k < length ps \<Longrightarrow>
          0 \<le> sy ! k \<and> sy ! k \<le> 1
        \<and> (ps ! k = Min (set ps) \<longrightarrow> sy ! k = 0)
        \<and> (Max (set ps) \<noteq> Min (set ps) \<longrightarrow> ps ! k = Max (set ps) \<longrightarrow> sy ! k = 1)"
    by blast
  from X [OF lr(1), of 0] m0 have x00: "sx ! 0 ! 0 = 0" by simp
  have c0: "Min (set (col rates 0)) = 0" "Max (set (col rates 0)) = 2" "rates ! 1 ! 0 = 2"
    by (simp_all add: col_def rates_def)
  have ab: "round_bin 53 (round_bin 53 (2 - 0) + round_bin 53 (1 / 10 ^ 16)) = round_bin 53 (2 - 0)"
    by (simp add: round_bin_def bexp.simps rne_def Let_def)
  from X [OF lr(2), of 0] have x10: "sx ! 1 ! 0 = 1" unfolding c0 using ab by simp
  from X [OF lr(2), of 1] have x11: "0 \<le> sx ! 1 ! 1" "sx ! 1 ! 1 \<le> 1" by simp_all
  from Y [OF lp(1)] p0 have y0: "sy ! 0 = 0" by simp
  from Y [OF lp(2)] have y1: "0 \<le> sy ! 1" "sy ! 1 \<le> 1" by simp_all
  from Y [OF lp(3)] p2 pd have y2: "sy ! 2 = 1" by simp
  from h1 h2 r x00 x11 x10 y0 y1 y2 show ?thesis unfolding rates_def ps_def by blast
qed

lemma example_col_mins: "col_mins [[0, 0], [2, 1 / 2]] = [0, 0]"
  by (simp add: col_mins_def col_def)

lemma example_col_maxs: "col_maxs [[0, 0], [2, 1 / 2]] = [2, 1 / 2]"
  by (simp add: col_maxs_def col_def)

text \<open>
  Claim C5 as stated has the rescaled inputs in the half-open interval, below 1. In
  \<^verbatim>\<open>float64\<close> that fails for a column with minimum 0 and maximum 2: the sum
  \<open>2 + 1e-16\<close> rounds to 2, so the maximum of the column is rescaled to exactly 1. (In
  the second column, of range 1/2, the maximum stays below 1.)
\<close>

theorem rescale_inputs_reaches_one:
  "rescale_inputs (round_bin 53) [[0, 0], [2, 1 / 2]]
     = Inr [[0, 0], [1, 4503599627370495 / 4503599627370496]]
   \<and> \<not> [[0, 0], [1, 4503599627370495 / 4503599627370496 :: real]] ! 1 ! 0 < 1"
proof -
  have "rescale_inputs (round_bin 53) [[0, 0], [2, 1 / 2]]
        = Inr [[0, 0], [1, 4503599627370495 / 4503599627370496]]"
    unfolding rescale_inputs_def example_col_mins example_col_maxs Let_def rescale_x_def
    by (simp add: round_bin_def bexp.simps rne_def Let_def)
  then show ?thesis by simp
qed

section \<open>The notebook's data and the training loop\<close>

text \<open>
  An exception ends the computation: \<open>bindE m f\<close> runs \<open>f\<close> on the value of \<open>m\<close>, or
  passes the exception of \<open>m\<close> on. \<open>py_nth\<close> is an index into a Python list or a numpy
  array, \<open>take_col\<close> is \<^verbatim>\<open>ar[:, c]\<close>, \<open>take_cols\<close> is \<^verbatim>\<open>ar[:, cols]\<close> and \<open>take_rows\<close>
  is \<^verbatim>\<open>ar[idx]\<close>; each raises IndexError out of range. \<open>assign_rows n xs\<close> is what a slice
  of \<open>n\<close> rows holds after \<open>xs\<close> is assigned to it: numpy broadcasts a single row and
  raises ValueError on any other length.
\<close>

definition bindE :: "error + 'a \<Rightarrow> ('a \<Rightarrow> error + 'b) \<Rightarrow> error + 'b" where
  "bindE m f = (case m of Inl e \<Rightarrow> Inl e | Inr x \<Rightarrow> f x)"

definition py_nth :: "'a list \<Rightarrow> nat \<Rightarrow> error + 'a" where
  "py_nth xs i = (if i < length xs then Inr (xs ! i) else Inl IndexError)"

definition take_col :: "real list list \<Rightarrow> nat \<Rightarrow> error + real list" where
  "take_col ar c = (if list_all (\<lambda>row. c < length row) ar then Inr (col ar c) else Inl IndexError)"

definition take_cols :: "real list list \<Rightarrow> nat list \<Rightarrow> error + real list list" where
  "take_cols ar cols =
     (if list_all (\<lambda>row. list_all (\<lambda>c. c < length row) cols) ar
      then Inr (map (\<lambda>row. map (\<lambda>c. row ! c) cols) ar)
      else Inl IndexError)"

definition take_rows :: "'a list \<Rightarrow> nat list \<Rightarrow> error + 'a list" where
  "take_rows ar idx =
     (if list_all (\<lambda>r. r < length ar) idx then Inr (map (\<lambda>r. ar ! r) idx) else Inl IndexError)"

definition assign_rows :: "nat \<Rightarrow> 'a list \<Rightarrow> error + 'a list" where
  "assign_rows n xs =
     (if length xs = n then Inr xs
      else if length xs = 1 then Inr (replicate n (hd xs))
      else Inl ValueError)"

text \<open>
  The regressor is a library object: a fitted \<^verbatim>\<open>GaussianProcessRegressor\<close> is modelled by the
  inputs and targets it was fitted to. An entry of the dictionary \<^verbatim>\<open>portfolio\<close> holds one
  slot per coarse time step in each of its object arrays; a slot is \<open>None\<close> while it holds
  the initial \<^verbatim>\<open>0\<close>. The fields \<open>min_x\<close> and \<open>max_x\<close> are the keys \<^verbatim>\<open>'min'\<close> and \<^verbatim>\<open>'max'\<close>.
\<close>

datatype gp = GP (train_x: "real list list") (train_y: "real list")

record entry =
  GPs :: "gp option list"
  weight :: real
  min_x :: "real list option list"
  max_x :: "real list option list"
  min_sc_x :: "real list option list"
  max_sc_x :: "real list option list"
  min_sc_y :: "real option list"
  max_sc_y :: "real option list"

text \<open>
  The global variables the loops read. The data files are not part of the repository, so
  their contents are parameters: \<open>mtm ! i ! j ! s\<close> is the price of instrument \<open>j\<close> at
  coarse time step \<open>i\<close> in scenario \<open>s\<close>; \<open>rates_fx ! i ! s ! p\<close> is process \<open>p\<close> at
  step \<open>i\<close> in scenario \<open>s\<close>, and \<open>prev_rates_fx\<close> the same at the previous reset date.
\<close>

record notebook =
  mtm :: "real list list list"
  rates_fx :: "real list list list"
  prev_rates_fx :: "real list list list"
  port_idx :: "nat list"
  irs_map :: "nat \<Rightarrow> nat list option"

text \<open>
  \<^verbatim>\<open>irs_map\<close>: the domestic rate for currency code 0, otherwise the foreign rate and the FX
  process. \<open>ccy_of i\<close> is \<^verbatim>\<open>irs_params['arr_0'][i][6]\<close>.
\<close>

definition make_irs_map :: "(nat \<Rightarrow> nat) \<Rightarrow> nat list \<Rightarrow> (nat \<Rightarrow> nat list option)" where
  "make_irs_map ccy_of pidx =
     fold (\<lambda>i m. m(i \<mapsto> (if ccy_of i = 0 then [0] else [ccy_of i, ccy_of i + 10]))) pidx Map.empty"

definition init_portfolio :: "nat \<Rightarrow> nat list \<Rightarrow> (nat \<Rightarrow> entry option)" where
  "init_portfolio nt pidx =
     fold (\<lambda>idx pf. pf(idx \<mapsto>
            \<lparr>GPs = replicate nt None, weight = 1,
             min_x = replicate nt None, max_x = replicate nt None,
             min_sc_x = replicate nt None, max_sc_x = replicate nt None,
             min_sc_y = replicate nt None, max_sc_y = replicate nt None\<rparr>)) pidx Map.empty"

definition dict_get :: "('k \<Rightarrow> 'v option) \<Rightarrow> 'k \<Rightarrow> error + 'v" where
  "dict_get d k = (case d k of None \<Rightarrow> Inl KeyError | Some v \<Rightarrow> Inr v)"

text \<open>
  \<^verbatim>\<open>rates_\<close> of the training loop, for time step \<open>i\<close> and instrument \<open>j\<close>: after the
  first step, a leading column with the first mapped process at the previous reset date.
\<close>

definition train_inputs :: "notebook \<Rightarrow> nat \<Rightarrow> nat \<Rightarrow> nat \<Rightarrow> error + real list list" where
  "train_inputs nb M i j =
     bindE (py_nth (port_idx nb) j) (\<lambda>key.
     bindE (dict_get (irs_map nb) key) (\<lambda>cols.
       if i > 0 then
         bindE (py_nth (prev_rates_fx nb) i) (\<lambda>prev.
         bindE (py_nth cols 0) (\<lambda>c0.
         bindE (take_col prev c0) (\<lambda>prev_col.
         bindE (assign_rows (2 * M) prev_col) (\<lambda>first.
         bindE (py_nth (rates_fx nb) i) (\<lambda>cur.
         bindE (take_cols cur cols) (\<lambda>sel.
         bindE (assign_rows (2 * M) sel) (\<lambda>others.
           Inr (map2 (#) first others))))))))
       else
         bindE (py_nth (rates_fx nb) i) (\<lambda>cur. take_cols cur cols)))"

text \<open>The seven assignments into \<^verbatim>\<open>portfolio[port_idx[j]]\<close> at slot \<open>i\<close>.\<close>

definition store ::
  "(nat \<Rightarrow> entry option) \<Rightarrow> nat \<Rightarrow> nat \<Rightarrow> gp \<Rightarrow> real list \<Rightarrow> real list \<Rightarrow> real list \<Rightarrow> real list
     \<Rightarrow> real \<Rightarrow> real \<Rightarrow> error + (nat \<Rightarrow> entry option)" where
  "store pf key i g mn mx mnx mxx mny mxy =
     bindE (dict_get pf key) (\<lambda>e.
       if i < length (GPs e) \<and> i < length (min_x e) \<and> i < length (max_x e)
          \<and> i < length (min_sc_x e) \<and> i < length (max_sc_x e)
          \<and> i < length (min_sc_y e) \<and> i < length (max_sc_y e)
       then Inr (pf(key \<mapsto> e\<lparr>GPs := (GPs e)[i := Some g],
                               min_x := (min_x e)[i := Some mn],
                               max_x := (max_x e)[i := Some mx],
                               min_sc_x := (min_sc_x e)[i := Some mnx],
                               max_sc_x := (max_sc_x e)[i := Some mxx],
                               min_sc_y := (min_sc_y e)[i := Some mny],
                               max_sc_y := (max_sc_y e)[i := Some mxy]\<rparr>))
       else Inl IndexError)"

text \<open>
  The body of the training loop, on the dictionary and the generator. \<^verbatim>\<open>gp.fit\<close> gets
  the rescaled inputs and the rescaled prices at the sampled rows \<open>idx\<close>.
\<close>

definition train_step ::
  "(real list \<Rightarrow> real \<Rightarrow> real) \<Rightarrow> (real \<Rightarrow> real) \<Rightarrow> notebook \<Rightarrow> nat \<Rightarrow> nat \<times> nat \<Rightarrow> (nat \<Rightarrow> entry option) \<times> rng
     \<Rightarrow> error + ((nat \<Rightarrow> entry option) \<times> rng)" where
  "train_step quantile rnd nb M ij s =
     bindE (train_inputs nb M (fst ij) (snd ij)) (\<lambda>rates.
     bindE (stratified_sampling quantile (snd s) rates M) (\<lambda>sampled.
     bindE (rescale_inputs rnd rates) (\<lambda>rates_sc.
     bindE (bindE (py_nth (mtm nb) (fst ij)) (\<lambda>m. py_nth m (snd ij))) (\<lambda>irs_prices.
     bindE (rescale_prices rnd irs_prices) (\<lambda>irs_prices_sc.
     bindE (take_rows rates_sc (fst sampled)) (\<lambda>x_train.
     bindE (take_rows irs_prices_sc (fst sampled)) (\<lambda>y_train.
     bindE (take_rows rates (fst sampled)) (\<lambda>sub.
     bindE (py_nth (port_idx nb) (snd ij)) (\<lambda>key.
     bindE (store (fst s) key (fst ij) (GP x_train y_train) (col_mins sub) (col_maxs sub)
              (col_mins rates) (col_maxs rates) (Min (set irs_prices)) (Max (set irs_prices)))
       (\<lambda>pf. Inr (pf, snd sampled)))))))))))"

text \<open>A \<^verbatim>\<open>for\<close> loop over a list, with the state passed on, ended by an exception.\<close>

fun run_loop :: "('b \<Rightarrow> 's \<Rightarrow> error + 's) \<Rightarrow> 'b list \<Rightarrow> 's \<Rightarrow> error + 's" where
  "run_loop body [] s = Inr s"
| "run_loop body (b # bs) s = bindE (body b s) (run_loop body bs)"

text \<open>\<^verbatim>\<open>for i in range(nt): for j in range(20):\<close> on the freshly initialised dictionary.\<close>

definition train ::
  "(real list \<Rightarrow> real \<Rightarrow> real) \<Rightarrow> (real \<Rightarrow> real) \<Rightarrow> notebook \<Rightarrow> nat \<Rightarrow> nat \<Rightarrow> rng \<Rightarrow> error + ((nat \<Rightarrow> entry option) \<times> rng)" where
  "train quantile rnd nb nt M g =
     run_loop (train_step quantile rnd nb M) (List.product [0..<nt] [0..<20])
       (init_portfolio nt (port_idx nb), g)"

subsection \<open>A domestic instrument at the first time step\<close>

lemma bindE_Inl [simp]: "bindE (Inl e) f = Inl e"
  by (simp add: bindE_def)

lemma bindE_Inr [simp]: "bindE (Inr x) f = f x"
  by (simp add: bindE_def)

lemma bindE_eq_Inr:
  "bindE m f = Inr y \<longleftrightarrow> (\<exists>x. m = Inr x \<and> f x = Inr y)"
  by (cases m) simp_all

lemma stratified_sampling_one_column:
  assumes "ar \<noteq> []" "length (hd ar) = 1"
  shows "stratified_sampling quantile g ar M = Inl IndexError"
  using assms by (simp add: stratified_sampling_def bucket_draws_def)

lemma stratified_sampling_no_rows: "stratified_sampling quantile g [] M = Inl ValueError"
  by (simp add: stratified_sampling_def)

lemma take_cols_single:
  assumes "take_cols cur [c] = Inr rates"
  shows "rates = [] \<or> length (hd rates) = 1"
proof -
  from assms have "rates = map (\<lambda>row. [row ! c]) cur"
    by (auto simp: take_cols_def split: if_splits)
  then show ?thesis by (cases cur) simp_all
qed

lemma train_step_domestic:
  assumes j: "j < length (port_idx nb)" and dom: "irs_map nb (port_idx nb ! j) = Some [0]"
  shows "train_step quantile rnd nb M (0, j) s = Inl IndexError \<or> train_step quantile rnd nb M (0, j) s = Inl ValueError"
proof -
  from j dom have ti: "train_inputs nb M 0 j = bindE (py_nth (rates_fx nb) 0) (\<lambda>cur. take_cols cur [0])"
    by (simp add: train_inputs_def py_nth_def dict_get_def)
  show ?thesis
  proof (cases "train_inputs nb M 0 j")
    case (Inl e)
    then have "e = IndexError"
      unfolding ti by (auto simp: py_nth_def take_cols_def bindE_def split: if_splits)
    with Inl show ?thesis by (simp add: train_step_def)
  next
    case (Inr rates)
    then obtain cur where "take_cols cur [0] = Inr rates"
      unfolding ti by (auto simp: bindE_eq_Inr)
    from take_cols_single [OF this] have "stratified_sampling quantile (snd s) rates M = Inl IndexError
        \<or> stratified_sampling quantile (snd s) rates M = Inl ValueError"
      using stratified_sampling_one_column [of rates quantile "snd s" M]
        stratified_sampling_no_rows [of quantile "snd s" M]
      by auto
    with Inr show ?thesis by (auto simp: train_step_def)
  qed
qed

lemma run_loop_raises:
  assumes "x \<in> set xs" "\<And>s. \<exists>e. body x s = Inl e"
  shows "\<exists>e. run_loop body xs s = Inl e"
  using assms(1)
proof (induction xs arbitrary: s)
  case Nil
  then show ?case by simp
next
  case (Cons y ys)
  show ?case
  proof (cases "body y s")
    case (Inl e)
    then show ?thesis by simp
  next
    case (Inr s')
    with Cons.prems assms(2) [of s] have "x \<in> set ys" by auto
    from Cons.IH [OF this] Inr show ?thesis by simp
  qed
qed

text \<open>
  Claim C7 says that a regressor is fitted for every instrument at every time step, with
  the domestic rate alone as the input of an instrument with currency code 0. The code does
  not get there: at the first time step such an instrument has a single input column, and
  \<open>stratified_sampling\<close>, which handles two columns and three or more, reads column 1 of
  it. So with a domestic instrument among the first 20, the step for that instrument at
  time step 0 raises, whatever the state, and the training loop ends with an exception.
\<close>

theorem train_raises_on_domestic_instrument:
  assumes nt: "0 < nt" and j20: "j < 20"
    and j: "j < length (port_idx nb)" and dom: "irs_map nb (port_idx nb ! j) = Some [0]"
  shows "(\<exists>e. train quantile rnd nb nt M g = Inl e)
       \<and> (\<forall>s. train_step quantile rnd nb M (0, j) s = Inl IndexError
              \<or> train_step quantile rnd nb M (0, j) s = Inl ValueError)"
proof -
  from nt j20 have mem: "(0, j) \<in> set (List.product [0..<nt] [0..<20])" by simp
  have step: "train_step quantile rnd nb M (0, j) s = Inl IndexError
      \<or> train_step quantile rnd nb M (0, j) s = Inl ValueError" for s
    using j dom by (rule train_step_domestic)
  then have "\<exists>e. train_step quantile rnd nb M (0, j) s = Inl e" for s by blast
  then have "\<exists>e. run_loop (train_step quantile rnd nb M) (List.product [0..<nt] [0..<20])
      (init_portfolio nt (port_idx nb), g) = Inl e"
    by (intro run_loop_raises [where x = "(0, j)"] mem)
  then have "\<exists>e. train quantile rnd nb nt M g = Inl e"
    unfolding train_def .
  with step show ?thesis by blast
qed

definition domestic_notebook :: notebook where
  "domestic_notebook =
     \<lparr>mtm = [[[5, 7, 6, 8]]],
      rates_fx = [[[1 / 100], [2 / 100], [3 / 100], [4 / 100]]],
      prev_rates_fx = [[[1 / 100], [1 / 100], [2 / 100], [2 / 100]]],
      port_idx = [0],
      irs_map = make_irs_map (\<lambda>i. 0) [0]\<rparr>"

theorem train_raises_on_domestic_instrument_witness:
  "(0::nat) < 1 \<and> (0::nat) < 20 \<and> 0 < length (port_idx domestic_notebook)
   \<and> irs_map domestic_notebook (port_idx domestic_notebook ! 0) = Some [0]
   \<and> train linear_quantile (round_bin 53) domestic_notebook 1 2 (\<lambda>k. k, 0) = Inl IndexError"
proof -
  have h: "(0::nat) < 1" "(0::nat) < 20" "0 < length (port_idx domestic_notebook)"
    "irs_map domestic_notebook (port_idx domestic_notebook ! 0) = Some [0]"
    by (simp_all add: domestic_notebook_def make_irs_map_def)
  have ti: "train_inputs domestic_notebook 2 0 0 = Inr [[1 / 100], [2 / 100], [3 / 100], [4 / 100]]"
    by (simp add: train_inputs_def domestic_notebook_def make_irs_map_def py_nth_def dict_get_def
          take_cols_def)
  have "stratified_sampling linear_quantile g0 [[1 / 100], [2 / 100], [3 / 100], [4 / 100]] 2
      = Inl IndexError" for g0
    by (rule stratified_sampling_one_column) simp_all
  with ti have st: "train_step linear_quantile (round_bin 53) domestic_notebook 2 (0, 0) s = Inl IndexError" for s
    by (simp add: train_step_def)
  have "[0..<20] = 0 # [1..<20]" by (simp add: upt_conv_Cons)
  then have "List.product [0..<1] [0..<20] = (0, 0) # map (Pair 0) [1..<20]" by simp
  then have "train linear_quantile (round_bin 53) domestic_notebook 1 2 (\<lambda>k. k, 0) = Inl IndexError"
    unfolding train_def by (simp add: st)
  with train_raises_on_domestic_instrument [OF h, of linear_quantile "round_bin 53" 2 "(\<lambda>k. k, 0)"] h
  show ?thesis by simp
qed

section \<open>The exposure simulation\<close>


text \<open>
  The three dictionaries \<^verbatim>\<open>CVA_simulation\<close> is called with, with the keys it reads:
  \<^verbatim>\<open>sim_params['M']\<close>, \<^verbatim>\<open>sim_params['nt']\<close>, \<^verbatim>\<open>model_params['r']\<close>, \<^verbatim>\<open>'T'\<close>, \<^verbatim>\<open>'t0'\<close>,
  \<^verbatim>\<open>'lambda'\<close>, \<^verbatim>\<open>'size'\<close> and \<^verbatim>\<open>def_model['recovery']\<close>.
\<close>

record sim_params =
  sim_M :: nat
  sim_nt :: nat

record model_params =
  mp_r :: real
  mp_T :: real
  mp_t0 :: real
  mp_lambda :: real
  mp_size :: nat

record def_model =
  recovery :: real

text \<open>
  A name in the body of a Python function that the function never assigns is looked up in
  the module's namespace and then among the builtins, and raises NameError when it is in
  neither. The module's namespace holds what the notebook's cells have imported, assigned
  or defined before the call: the imports are \<^verbatim>\<open>matplotlib.pyplot as plt\<close>,
  \<^verbatim>\<open>numpy as np\<close>, \<^verbatim>\<open>gaussian_process\<close> and the three kernels, and the magic
  \<^verbatim>\<open>%matplotlib inline\<close> binds no name. \<open>python_builtins\<close> lists the built-in functions;
  the built-in constants and exception classes and the names of the interactive shell
  (\<^verbatim>\<open>In\<close>, \<^verbatim>\<open>Out\<close>, \<^verbatim>\<open>get_ipython\<close>, \<^verbatim>\<open>exit\<close>, \<^verbatim>\<open>quit\<close>) are left out, none of which the
  function uses. \<open>cva_locals\<close> are the names \<^verbatim>\<open>CVA_simulation\<close> assigns.
\<close>

definition notebook_globals :: "string list" where
  "notebook_globals =
     [''plt'', ''np'', ''gaussian_process'', ''ConstantKernel'', ''RBF'', ''Matern'',
      ''mtm_irs'', ''rates_and_fx'', ''irs_params'', ''rate_params'', ''cpty_idx'',
      ''port_idx'', ''i'', ''T'', ''reset_idx'', ''M'', ''irs_map'', ''ccy'', ''mtm'',
      ''rates_fx'', ''prev_rates_fx'', ''t'', ''nt'', ''stratified_sampling'',
      ''sk_kernel_matern'', ''sk_kernel_rbf'', ''portfolio'', ''idx'', ''gps'', ''j'',
      ''n_rates'', ''rates_'', ''gp'', ''rates_sc_'', ''irs_prices'', ''irs_prices_sc_'',
      ''CVA_simulation'', ''def_model'', ''sim_params'', ''model_params'']"

definition python_builtins :: "string list" where
  "python_builtins =
     [''abs'', ''all'', ''any'', ''ascii'', ''bin'', ''bool'', ''bytearray'', ''bytes'',
      ''callable'', ''chr'', ''classmethod'', ''compile'', ''complex'', ''delattr'',
      ''dict'', ''dir'', ''divmod'', ''enumerate'', ''eval'', ''exec'', ''filter'',
      ''float'', ''format'', ''frozenset'', ''getattr'', ''globals'', ''hasattr'',
      ''hash'', ''help'', ''hex'', ''id'', ''input'', ''int'', ''isinstance'',
      ''issubclass'', ''iter'', ''len'', ''list'', ''locals'', ''map'', ''max'',
      ''memoryview'', ''min'', ''next'', ''object'', ''oct'', ''open'', ''ord'', ''pow'',
      ''print'', ''property'', ''range'', ''repr'', ''reversed'', ''round'', ''set'',
      ''setattr'', ''slice'', ''sorted'', ''staticmethod'', ''str'', ''sum'', ''super'',
      ''tuple'', ''type'', ''vars'', ''zip'', ''__import__'']"

definition cva_locals :: "string list" where
  "cva_locals =
     [''sim_params'', ''model_params'', ''def_model'', ''M'', ''nt'', ''r'', ''T'', ''t0'',
      ''haz_rate'', ''n_instruments'', ''pi'', ''dPD'', ''dt'', ''i'', ''pred_'', ''var_'',
      ''obs_'', ''j'', ''idx'', ''irs_prices'', ''rates'', ''prev_rates'', ''n_rates'',
      ''key'', ''dim'', ''test_rates'', ''k'', ''idx_min'', ''idx_max'', ''min_'', ''max_'',
      ''test_rates_sc'', ''pred_sc'', ''std'', ''min_y_'', ''max_y_'', ''pred'', ''CVA'',
      ''time'', ''mu_tilde'', ''std_tilde_err'', ''mu_exact'', ''std_exact_err'']"

definition lookup_name :: "string \<Rightarrow> error + unit" where
  "lookup_name n =
     (if n \<in> set (cva_locals @ notebook_globals @ python_builtins) then Inr ()
      else Inl NameError)"

text \<open>
  \<^verbatim>\<open>np.mean\<close> and \<^verbatim>\<open>np.std\<close> (the population standard deviation) of the second loop of
  \<^verbatim>\<open>CVA_simulation\<close>, in exact arithmetic: the first pass of that loop raises before any
  value it computes is used (section \<open>The name that is not defined\<close>). On an empty array
  numpy returns \<^verbatim>\<open>nan\<close> with a warning; the division by 0 of HOL gives 0 there.
\<close>

definition np_mean :: "real list \<Rightarrow> real" where
  "np_mean xs = sum_list xs / real (length xs)"

definition np_std :: "real list \<Rightarrow> real" where
  "np_std xs = sqrt (np_mean (map (\<lambda>x. (x - np_mean xs)\<^sup>2) xs))"

text \<open>
  The clipping of one column: \<^verbatim>\<open>idx_min\<close> and \<^verbatim>\<open>idx_max\<close> are both computed before
  the two assignments, and the assignment of the maximum comes last.
\<close>

definition clip :: "real \<Rightarrow> real \<Rightarrow> real \<Rightarrow> real" where
  "clip mn mx x = (if mx < x then mx else if x < mn then mn else x)"

text \<open>
  A slot of an object array of the dictionary that is indexed further: the initial
  \<^verbatim>\<open>0\<close> is not subscriptable.
\<close>

definition slot :: "'a option list \<Rightarrow> nat \<Rightarrow> error + 'a" where
  "slot arr i =
     bindE (py_nth arr i) (\<lambda>v. case v of None \<Rightarrow> Inl TypeError | Some a \<Rightarrow> Inr a)"

text \<open>
  \<^verbatim>\<open>test_rates\<close> before the clipping: the rows \<open>idx\<close> of the instrument's processes, after
  the first date with the first process at the previous reset date in front.
\<close>

definition test_inputs :: "notebook \<Rightarrow> nat \<Rightarrow> nat \<Rightarrow> nat list \<Rightarrow> error + real list list" where
  "test_inputs nb i j idx =
     bindE (py_nth (rates_fx nb) i) (\<lambda>cur.
     bindE (py_nth (port_idx nb) j) (\<lambda>key.
     bindE (dict_get (irs_map nb) key) (\<lambda>cols.
     bindE (take_cols cur cols) (\<lambda>rates.
     bindE (py_nth (prev_rates_fx nb) i) (\<lambda>prev.
     bindE (py_nth cols 0) (\<lambda>c0.
     bindE (take_col prev c0) (\<lambda>prev_rates.
       if i > 0 then
         bindE (take_rows prev_rates idx) (\<lambda>first.
         bindE (take_rows rates idx) (\<lambda>others.
           Inr (map2 (#) first others)))
       else take_rows rates idx)))))))"

text \<open>The body and the loop \<^verbatim>\<open>for k in range(dim)\<close>.\<close>

definition clip_column :: "entry \<Rightarrow> nat \<Rightarrow> nat \<Rightarrow> real list list \<Rightarrow> error + real list list" where
  "clip_column e i k test_rates =
     bindE (slot (min_x e) i) (\<lambda>mins.
     bindE (py_nth mins k) (\<lambda>mn.
     bindE (slot (max_x e) i) (\<lambda>maxs.
     bindE (py_nth maxs k) (\<lambda>mx.
       Inr (map (\<lambda>row. row[k := clip mn mx (row ! k)]) test_rates)))))"

definition clip_rates :: "entry \<Rightarrow> nat \<Rightarrow> nat \<Rightarrow> real list list \<Rightarrow> error + real list list" where
  "clip_rates e i ncols test_rates = run_loop (clip_column e i) [0..<ncols] test_rates"

text \<open>
  \<^verbatim>\<open>test_rates_sc = (test_rates - min_) / (max_ - min_)\<close>, each operation rounded. numpy
  divides by zero without raising: the quotient is \<^verbatim>\<open>nan\<close> for \<open>0 / 0\<close>, and \<^verbatim>\<open>inf\<close> or
  \<^verbatim>\<open>-inf\<close> for any other numerator, by its sign. So an element of \<^verbatim>\<open>test_rates_sc\<close> is a
  number or one of these three values. \<open>rescale_t\<close> is the quotient on a denominator that is
  not 0. A slot that still holds the initial \<^verbatim>\<open>0\<close> is subtracted like a row of zeros. The
  bounds written by the training loop have one entry per column; another length is reported
  as ValueError (numpy would try to broadcast).
\<close>

datatype npfloat = Num real | PosInf | NegInf | NaN

definition np_divide :: "(real \<Rightarrow> real) \<Rightarrow> real \<Rightarrow> real \<Rightarrow> npfloat" where
  "np_divide rnd a b =
     (if b \<noteq> 0 then Num (rnd (a / b))
      else if a = 0 then NaN else if 0 < a then PosInf else NegInf)"


definition vec_slot :: "nat \<Rightarrow> real list option list \<Rightarrow> nat \<Rightarrow> error + real list" where
  "vec_slot ncols arr i =
     bindE (py_nth arr i) (\<lambda>v. case v of
         None \<Rightarrow> Inr (replicate ncols 0)
       | Some a \<Rightarrow> if length a = ncols then Inr a else Inl ValueError)"

definition rescale_test ::
  "(real \<Rightarrow> real) \<Rightarrow> entry \<Rightarrow> nat \<Rightarrow> nat \<Rightarrow> real list list \<Rightarrow> error + npfloat list list" where
  "rescale_test rnd e i ncols test_rates =
     bindE (vec_slot ncols (min_sc_x e) i) (\<lambda>mn.
     bindE (vec_slot ncols (max_sc_x e) i) (\<lambda>mx.
       Inr (map (\<lambda>row. map (\<lambda>k. np_divide rnd (rnd (row ! k - mn ! k)) (rnd (mx ! k - mn ! k)))
                              [0..<ncols])
              test_rates)))"

text \<open>
  A slot read as a number (the initial \<^verbatim>\<open>0\<close> is one), and a slot whose \<^verbatim>\<open>predict\<close> method
  is called (the initial \<^verbatim>\<open>0\<close> has none).
\<close>

definition scalar_slot :: "real option list \<Rightarrow> nat \<Rightarrow> error + real" where
  "scalar_slot arr i =
     bindE (py_nth arr i) (\<lambda>v. case v of None \<Rightarrow> Inr 0 | Some a \<Rightarrow> Inr a)"

definition gp_slot :: "gp option list \<Rightarrow> nat \<Rightarrow> error + gp" where
  "gp_slot arr i =
     bindE (py_nth arr i) (\<lambda>v. case v of None \<Rightarrow> Inl AttributeError | Some a \<Rightarrow> Inr a)"

text \<open>
  \<^verbatim>\<open>predict(test_rates_sc, return_std=True)\<close> of the library: a parameter of the model. It
  raises (the library refuses an input that is not finite) or returns one mean and one
  standard deviation per row; the model reports a result of any other length as ValueError.
  The three accumulators \<^verbatim>\<open>pred_\<close>, \<^verbatim>\<open>var_\<close> and \<^verbatim>\<open>obs_\<close> start as the number 0, which
  numpy adds to an array of \<open>M\<close> entries like an array of zeros. Every operation on the
  arrays rounds its result: \<^verbatim>\<open>pred = min_y_ + pred_sc * (max_y_ - min_y_)\<close>,
  \<^verbatim>\<open>std *= (max_y_ - min_y_)\<close>, and the three updates \<^verbatim>\<open>pred_ += weight * pred\<close>,
  \<^verbatim>\<open>var_ += (weight * std)**2\<close>, \<^verbatim>\<open>obs_ += weight * irs_prices\<close>.
\<close>

type_synonym predictor = "gp \<Rightarrow> npfloat list list \<Rightarrow> error + (real list \<times> real list)"

record accum =
  pred_acc :: "real list"
  var_acc :: "real list"
  obs_acc :: "real list"

text \<open>\<^verbatim>\<open>dim\<close>: the number of input columns at date \<open>i\<close>.\<close>

definition dim_of :: "nat \<Rightarrow> nat list \<Rightarrow> nat" where
  "dim_of i cols = (if i > 0 then length cols + 1 else length cols)"

text \<open>
  The body of the loop over the instruments, on the accumulators and the generator. When
  the clipping loop is reached, \<open>cols\<close> is not empty (\<open>test_inputs\<close> has read its first
  element), so the loop runs and reads \<^verbatim>\<open>portfolio[key]\<close>.
\<close>

definition instrument_step ::
  "predictor \<Rightarrow> (real \<Rightarrow> real) \<Rightarrow> notebook \<Rightarrow> (nat \<Rightarrow> entry option) \<Rightarrow> nat \<Rightarrow> nat \<Rightarrow> nat
     \<Rightarrow> accum \<times> rng \<Rightarrow> error + (accum \<times> rng)" where
  "instrument_step predict rnd nb portfolio M i j s =
     bindE (random_choice (snd s) [0..<2 * M] M) (\<lambda>drawn.
     bindE (py_nth (mtm nb) i) (\<lambda>m.
     bindE (py_nth m j) (\<lambda>prices.
     bindE (take_rows prices (fst drawn)) (\<lambda>irs_prices.
     bindE (test_inputs nb i j (fst drawn)) (\<lambda>test_rates.
     bindE (py_nth (port_idx nb) j) (\<lambda>key.
     bindE (dict_get (irs_map nb) key) (\<lambda>cols.
     bindE (dict_get portfolio key) (\<lambda>e.
     bindE (clip_rates e i (dim_of i cols) test_rates) (\<lambda>clipped.
     bindE (rescale_test rnd e i (dim_of i cols) clipped) (\<lambda>test_rates_sc.
     bindE (gp_slot (GPs e) i) (\<lambda>g.
     bindE (predict g test_rates_sc) (\<lambda>predicted.
       let pred_sc = fst predicted; std = snd predicted
       in if length pred_sc \<noteq> M \<or> length std \<noteq> M then Inl ValueError
          else
            bindE (scalar_slot (min_sc_y e) i) (\<lambda>min_y.
            bindE (scalar_slot (max_sc_y e) i) (\<lambda>max_y.
              Inr (\<lparr>pred_acc = map2 (\<lambda>a p. rnd (a + rnd (weight e * p))) (pred_acc (fst s))
                                  (map (\<lambda>p. rnd (min_y + rnd (p * rnd (max_y - min_y)))) pred_sc),
                    var_acc = map2 (\<lambda>a sd. rnd (a + rnd ((rnd (weight e * sd))\<^sup>2))) (var_acc (fst s))
                                  (map (\<lambda>sd. rnd (sd * rnd (max_y - min_y))) std),
                    obs_acc = map2 (\<lambda>a p. rnd (a + rnd (weight e * p))) (obs_acc (fst s))
                                  irs_prices\<rparr>,
                   snd drawn)))))))))))))))"

text \<open>
  The dictionary \<^verbatim>\<open>pi\<close> and the array \<^verbatim>\<open>dPD\<close>: one row per exposure date, one entry per
  path. They are \<^verbatim>\<open>float32\<close> arrays, and what is assigned to a row is computed in
  \<^verbatim>\<open>float64\<close>: \<open>f32\<close> is the conversion of the assignment, the rounding to \<^verbatim>\<open>float32\<close>.
  \<^verbatim>\<open>np.exp\<close> is a parameter of the model, the function \<open>np_exp\<close>; the two products and
  the quotient \<^verbatim>\<open>T/nt\<close> round their results.
\<close>

record exposures =
  pi_tilde :: "real list list"
  pi_exact :: "real list list"
  pi_tilde_var :: "real list list"

text \<open>The body of the loop over the exposure dates, and the loop.\<close>

definition date_step ::
  "predictor \<Rightarrow> (real \<Rightarrow> real) \<Rightarrow> (real \<Rightarrow> real) \<Rightarrow> (real \<Rightarrow> real) \<Rightarrow> notebook
     \<Rightarrow> (nat \<Rightarrow> entry option) \<Rightarrow> sim_params
     \<Rightarrow> model_params \<Rightarrow> nat \<Rightarrow> (exposures \<times> real list list) \<times> rng
     \<Rightarrow> error + ((exposures \<times> real list list) \<times> rng)" where
  "date_step predict rnd f32 np_exp nb portfolio sp mp i s =
     (let M = sim_M sp; haz_rate = mp_lambda mp; dt = rnd (mp_T mp / real (sim_nt sp));
          zeros = replicate M 0
      in bindE (run_loop (instrument_step predict rnd nb portfolio M i) [0..<mp_size mp]
                  (\<lparr>pred_acc = zeros, var_acc = zeros, obs_acc = zeros\<rparr>, snd s))
           (\<lambda>done.
              Inr (((fst (fst s))\<lparr>pi_tilde := (pi_tilde (fst (fst s)))[i := map f32 (pred_acc (fst done))],
                                  pi_exact := (pi_exact (fst (fst s)))[i := map f32 (obs_acc (fst done))],
                                  pi_tilde_var := (pi_tilde_var (fst (fst s)))[i := map f32 (var_acc (fst done))]\<rparr>,
                    (snd (fst s))[i := replicate M (f32 (rnd (haz_rate * np_exp (rnd (- haz_rate * dt)))))]),
                   snd done)))"

definition simulate_exposures ::
  "predictor \<Rightarrow> (real \<Rightarrow> real) \<Rightarrow> (real \<Rightarrow> real) \<Rightarrow> (real \<Rightarrow> real) \<Rightarrow> notebook
     \<Rightarrow> (nat \<Rightarrow> entry option) \<Rightarrow> sim_params
     \<Rightarrow> model_params \<Rightarrow> rng \<Rightarrow> error + ((exposures \<times> real list list) \<times> rng)" where
  "simulate_exposures predict rnd f32 np_exp nb portfolio sp mp g =
     (let zeros = replicate (sim_nt sp) (replicate (sim_M sp) 0)
      in run_loop (date_step predict rnd f32 np_exp nb portfolio sp mp) [0..<sim_nt sp]
           ((\<lparr>pi_tilde = zeros, pi_exact = zeros, pi_tilde_var = zeros\<rparr>, zeros), g))"

text \<open>
  The dictionary \<^verbatim>\<open>CVA\<close> and the body of the second loop. The name \<^verbatim>\<open>sqrt\<close> is looked up
  when the first error bar is computed, after \<^verbatim>\<open>CVA['tilde']\<close> has been updated.
\<close>

record cva =
  cva_tilde :: real
  cva_exact :: real
  cva_exact_up :: real
  cva_exact_down :: real
  cva_tilde_up :: real
  cva_tilde_down :: real

definition cva_step ::
  "sim_params \<Rightarrow> model_params \<Rightarrow> exposures \<Rightarrow> real list list \<Rightarrow> nat \<Rightarrow> cva \<Rightarrow> error + cva" where
  "cva_step sp mp pi_v dPD i c =
     (let M = sim_M sp; dt = mp_T mp / real (sim_nt sp);
          time = real i * dt;
          disc = exp (- mp_r mp * (time - mp_t0 mp));
          mu_tilde = np_mean (map2 (*) (dPD ! i) (pi_tilde pi_v ! i)) * disc * dt;
          c1 = c\<lparr>cva_tilde := cva_tilde c + mu_tilde\<rparr>
      in bindE (lookup_name ''sqrt'') (\<lambda>_.
           if M = 0 then Inl NotFinite
           else
             let std_tilde_err = np_std (map2 (*) (dPD ! i) (pi_tilde pi_v ! i)) * disc * dt
                                   / sqrt (real M);
                 c2 = c1\<lparr>cva_tilde_up := cva_tilde_up c1 + (mu_tilde + 2 * std_tilde_err),
                         cva_tilde_down := cva_tilde_down c1 + (mu_tilde - 2 * std_tilde_err)\<rparr>;
                 mu_exact = np_mean (map2 (*) (dPD ! i) (pi_exact pi_v ! i)) * disc * dt;
                 c3 = c2\<lparr>cva_exact := cva_exact c2 + mu_exact\<rparr>
             in bindE (lookup_name ''sqrt'') (\<lambda>_.
                  let std_exact_err = np_std (map2 (*) (dPD ! i) (pi_exact pi_v ! i)) * disc * dt
                                        / sqrt (real M)
                  in Inr (c3\<lparr>cva_exact_up := cva_exact_up c3 + (mu_exact + 2 * std_exact_err),
                              cva_exact_down := cva_exact_down c3 + (mu_exact - 2 * std_exact_err)\<rparr>))))"

definition scale_cva :: "real \<Rightarrow> cva \<Rightarrow> cva" where
  "scale_cva f c =
     \<lparr>cva_tilde = cva_tilde c * f, cva_exact = cva_exact c * f,
      cva_exact_up = cva_exact_up c * f, cva_exact_down = cva_exact_down c * f,
      cva_tilde_up = cva_tilde_up c * f, cva_tilde_down = cva_tilde_down c * f\<rparr>"

text \<open>
  \<^verbatim>\<open>CVA_simulation(sim_params, model_params, def_model)\<close>. \<^verbatim>\<open>dt = T/nt\<close> divides a Python
  float by a Python integer and raises ZeroDivisionError when \<open>nt = 0\<close>.
\<close>

definition CVA_simulation ::
  "predictor \<Rightarrow> (real \<Rightarrow> real) \<Rightarrow> (real \<Rightarrow> real) \<Rightarrow> (real \<Rightarrow> real) \<Rightarrow> notebook
     \<Rightarrow> (nat \<Rightarrow> entry option) \<Rightarrow> sim_params
     \<Rightarrow> model_params \<Rightarrow> def_model \<Rightarrow> rng \<Rightarrow> error + (cva \<times> exposures \<times> rng)" where
  "CVA_simulation predict rnd f32 np_exp nb portfolio sp mp dm g =
     (if sim_nt sp = 0 then Inl ZeroDivisionError
      else
        bindE (simulate_exposures predict rnd f32 np_exp nb portfolio sp mp g) (\<lambda>sim.
        bindE (run_loop (cva_step sp mp (fst (fst sim)) (snd (fst sim))) [0..<sim_nt sp]
                 \<lparr>cva_tilde = 0, cva_exact = 0, cva_exact_up = 0, cva_exact_down = 0,
                  cva_tilde_up = 0, cva_tilde_down = 0\<rparr>)
          (\<lambda>c. Inr (scale_cva (1 - recovery dm) c, fst (fst sim), snd sim))))"



subsection \<open>The name that is not defined\<close>

lemma lookup_sqrt: "lookup_name ''sqrt'' = Inl NameError"
  by (simp add: lookup_name_def cva_locals_def notebook_globals_def python_builtins_def)

lemma cva_step_raises: "cva_step sp mp pi_v dPD i c = Inl NameError"
  by (simp add: cva_step_def Let_def lookup_sqrt)

lemma cva_loop_raises:
  "0 < nt \<Longrightarrow> run_loop (cva_step sp mp pi_v dPD) [0..<nt] c = Inl NameError"
  by (simp add: upt_conv_Cons cva_step_raises)

subsection \<open>A worked example\<close>

text \<open>
  One exposure date, two paths drawn from four scenarios, one domestic instrument. The
  stand-in for the regressor refuses an input that is not finite and predicts the first
  rescaled input, with standard deviation 1/4; the stand-in for \<^verbatim>\<open>np.exp\<close> is the
  exponential rounded to \<^verbatim>\<open>float64\<close>. The generator draws the positions 1 and 2.
\<close>

definition example_predict :: predictor where
  "example_predict g test =
     (if list_all (list_all (\<lambda>v. case v of Num x \<Rightarrow> True | _ \<Rightarrow> False)) test
      then Inr (map (\<lambda>row. case hd row of Num x \<Rightarrow> x | _ \<Rightarrow> 0) test, map (\<lambda>row. 1 / 4) test)
      else Inl ValueError)"

definition example_exp :: "real \<Rightarrow> real" where
  "example_exp x = round_bin 53 (exp x)"

definition example_notebook :: notebook where
  "example_notebook =
     \<lparr>mtm = [[[5, - 3, - 1, 7]]],
      rates_fx = [[[1 / 64], [2 / 64], [3 / 64], [5 / 64]]],
      prev_rates_fx = [[[1 / 64], [1 / 64], [2 / 64], [2 / 64]]],
      port_idx = [0],
      irs_map = make_irs_map (\<lambda>i. 0) [0]\<rparr>"

definition example_entry :: entry where
  "example_entry =
       \<lparr>GPs = [Some (GP [[0], [1]] [1, 0])], weight = 1,
        min_x = [Some [2 / 64]], max_x = [Some [5 / 64]],
        min_sc_x = [Some [1 / 64]], max_sc_x = [Some [5 / 64]],
        min_sc_y = [Some (- 3)], max_sc_y = [Some 7]\<rparr>"

definition example_portfolio :: "nat \<Rightarrow> entry option" where
  "example_portfolio = Map.empty(0 \<mapsto> example_entry)"

definition example_sim :: sim_params where
  "example_sim = \<lparr>sim_M = 2, sim_nt = 1\<rparr>"

definition example_model :: model_params where
  "example_model = \<lparr>mp_r = 2 / 100, mp_T = 10, mp_t0 = 0, mp_lambda = 5 / 100, mp_size = 1\<rparr>"

lemma b64_dyadic: "round_bin 53 (1 / 64) = 1 / 64" "round_bin 53 (1 / 32) = 1 / 32"
  "round_bin 53 (1 / 16) = 1 / 16" "round_bin 53 (1 / 4) = 1 / 4" "round_bin 53 (1 / 2) = 1 / 2"
  using round_bin_pow2 [of 53 "- 6"] round_bin_pow2 [of 53 "- 5"] round_bin_pow2 [of 53 "- 4"]
    round_bin_pow2 [of 53 "- 2"] round_bin_pow2 [of 53 "- 1"]
  by simp_all

lemma b64_small: "round_bin 53 10 = 10" "round_bin 53 (5 / 2) = 5 / 2" "round_bin 53 5 = 5"
  "round_bin 53 (- (1 / 2)) = - (1 / 2)" "round_bin 53 2 = 2" "round_bin 53 (25 / 4) = 25 / 4"
  "round_bin 53 (- 3) = - 3" "round_bin 53 (- 1) = - 1"
  by (simp_all add: round_bin_def bexp.simps rne_def Let_def)

lemma b32_small: "round_bin 24 (- (1 / 2)) = - (1 / 2)" "round_bin 24 2 = 2"
  "round_bin 24 (25 / 4) = 25 / 4" "round_bin 24 (- 3) = - 3" "round_bin 24 (- 1) = - 1"
  by (simp_all add: round_bin_def bexp.simps rne_def Let_def)


lemma example_instrument:
  "instrument_step example_predict (round_bin 53) example_notebook example_portfolio 2 0 0
     (\<lparr>pred_acc = [0, 0], var_acc = [0, 0], obs_acc = [0, 0]\<rparr>, (Suc, 0))
   = Inr (\<lparr>pred_acc = [- (1 / 2), 2], var_acc = [25 / 4, 25 / 4], obs_acc = [- 3, - 1]\<rparr>, (Suc, 2))"
proof -
  define e where "e = example_entry"
  have e_def: "e = \<lparr>GPs = [Some (GP [[0], [1]] [1, 0])], weight = 1,
        min_x = [Some [2 / 64]], max_x = [Some [5 / 64]],
        min_sc_x = [Some [1 / 64]], max_sc_x = [Some [5 / 64]],
        min_sc_y = [Some (- 3)], max_sc_y = [Some 7]\<rparr>"
    by (simp add: e_def example_entry_def)
  have s1: "random_choice (Suc, 0) [0..<2 * 2] 2 = Inr ([1, 2], (Suc, 2))"
    by (simp add: random_choice_def upt_conv_Cons)
  have s2: "py_nth (mtm example_notebook) 0 = Inr [[5, - 3, - 1, 7]]"
    by (simp add: py_nth_def example_notebook_def)
  have s3: "py_nth [[5, - 3, - 1, 7 :: real]] 0 = Inr [5, - 3, - 1, 7]"
    by (simp add: py_nth_def)
  have s4: "take_rows [5, - 3, - 1, 7 :: real] [1, 2] = Inr [- 3, - 1]"
    by (simp add: take_rows_def)
  have s5: "test_inputs example_notebook 0 0 [1, 2] = Inr [[2 / 64], [3 / 64]]"
    by (simp add: test_inputs_def example_notebook_def make_irs_map_def py_nth_def dict_get_def
          take_cols_def take_col_def take_rows_def)
  have s6: "py_nth (port_idx example_notebook) 0 = Inr 0"
    by (simp add: py_nth_def example_notebook_def)
  have s7: "dict_get (irs_map example_notebook) 0 = Inr [0]"
    by (simp add: dict_get_def example_notebook_def make_irs_map_def)
  have s8: "dict_get example_portfolio 0 = Inr e"
    by (simp add: dict_get_def example_portfolio_def \<open>e = example_entry\<close>)
  have d: "dim_of 0 [0] = 1" by (simp add: dim_of_def)
  have s9: "clip_rates e 0 1 [[2 / 64], [3 / 64]] = Inr [[2 / 64], [3 / 64]]"
    by (simp add: clip_rates_def clip_column_def clip_def slot_def py_nth_def e_def)
  have s10: "rescale_test (round_bin 53) e 0 1 [[2 / 64], [3 / 64]] = Inr [[Num (1 / 4)], [Num (1 / 2)]]"
    by (simp add: rescale_test_def np_divide_def vec_slot_def py_nth_def e_def b64_dyadic)
  have s11: "gp_slot (GPs e) 0 = Inr (GP [[0], [1]] [1, 0])"
    by (simp add: gp_slot_def py_nth_def e_def)
  have s12: "example_predict (GP [[0], [1]] [1, 0]) [[Num (1 / 4)], [Num (1 / 2)]]
      = Inr ([1 / 4, 1 / 2], [1 / 4, 1 / 4])"
    by (simp add: example_predict_def)
  have s13: "scalar_slot (min_sc_y e) 0 = Inr (- 3)" "scalar_slot (max_sc_y e) 0 = Inr 7"
    by (simp_all add: scalar_slot_def py_nth_def e_def)
  have w: "weight e = 1" by (simp add: e_def)
  show ?thesis
    unfolding instrument_step_def
    by (simp only: snd_conv fst_conv s1 bindE_Inr s2 s3 s4 s5 s6 s7 s8 d s9 s10 s11 s12 Let_def
          s13 w accum.simps)
       (simp add: power2_eq_square b64_small)
qed

lemma example_exposures:
  "simulate_exposures example_predict (round_bin 53) (round_bin 24) example_exp
     example_notebook example_portfolio example_sim example_model (Suc, 0)
   = Inr ((\<lparr>pi_tilde = [[- (1 / 2), 2]], pi_exact = [[- 3, - 1]], pi_tilde_var = [[25 / 4, 25 / 4]]\<rparr>,
           [[round_bin 24 (round_bin 53 (5 / 100
               * example_exp (round_bin 53 (- (5 / 100) * round_bin 53 (10 / 1))))),
             round_bin 24 (round_bin 53 (5 / 100
               * example_exp (round_bin 53 (- (5 / 100) * round_bin 53 (10 / 1)))))]]),
          (Suc, 2))"
proof -
  have m: "sim_M example_sim = 2" "sim_nt example_sim = 1" "mp_size example_model = 1"
    "mp_lambda example_model = 5 / 100" "mp_T example_model = 10"
    by (simp_all add: example_sim_def example_model_def)
  have l1: "[0..<(1::nat)] = [0]" by simp
  have r2: "replicate 2 (0::real) = [0, 0]" by (simp add: numeral_2_eq_2)
  have r2': "replicate 2 x = [x, x]" for x :: real by (simp add: numeral_2_eq_2)
  have r1: "replicate 1 xs = [xs]" for xs :: "real list" by simp
  show ?thesis
    unfolding simulate_exposures_def date_step_def
    by (simp only: m l1 r2 r1 Let_def run_loop.simps snd_conv fst_conv example_instrument
          bindE_Inr exposures.simps list_update_code accum.simps of_nat_1 r2' list.map b32_small)
qed


subsection \<open>The simulation never returns\<close>

text \<open>
  Claim C3. With at least one exposure date, \<open>CVA_simulation\<close> never returns a result:
  whenever the loop over the exposure dates completes, the first pass of the second loop
  looks up \<^verbatim>\<open>sqrt\<close>, which the notebook neither imports nor defines, and the call ends
  with NameError. (An exception raised earlier, in the first loop, ends the call as well.)
\<close>

theorem CVA_simulation_raises_NameError:
  assumes nt: "0 < sim_nt sp"
  shows "(\<forall>res. CVA_simulation predict rnd f32 np_exp nb portfolio sp mp dm g \<noteq> Inr res)
       \<and> (\<forall>sim. simulate_exposures predict rnd f32 np_exp nb portfolio sp mp g = Inr sim \<longrightarrow>
              CVA_simulation predict rnd f32 np_exp nb portfolio sp mp dm g = Inl NameError)"
proof -
  have loop: "run_loop (cva_step sp mp pi_v dPD) [0..<sim_nt sp] c = Inl NameError" for pi_v dPD c
    using nt by (rule cva_loop_raises)
  have 1: "CVA_simulation predict rnd f32 np_exp nb portfolio sp mp dm g = Inl NameError"
    if "simulate_exposures predict rnd f32 np_exp nb portfolio sp mp g = Inr sim" for sim
    using nt that by (simp add: CVA_simulation_def loop)
  have 2: "CVA_simulation predict rnd f32 np_exp nb portfolio sp mp dm g \<noteq> Inr res" for res
  proof (cases "simulate_exposures predict rnd f32 np_exp nb portfolio sp mp g")
    case (Inl e)
    with nt show ?thesis by (simp add: CVA_simulation_def)
  next
    case (Inr sim)
    from 1 [OF this] show ?thesis by simp
  qed
  from 1 2 show ?thesis by blast
qed

theorem CVA_simulation_raises_NameError_witness:
  "0 < sim_nt example_sim
   \<and> (\<exists>sim. simulate_exposures example_predict (round_bin 53) (round_bin 24) example_exp
          example_notebook example_portfolio example_sim example_model (Suc, 0) = Inr sim)
   \<and> CVA_simulation example_predict (round_bin 53) (round_bin 24) example_exp
          example_notebook example_portfolio
          example_sim example_model \<lparr>recovery = 4 / 10\<rparr> (Suc, 0) = Inl NameError"
proof -
  have h: "0 < sim_nt example_sim" by (simp add: example_sim_def)
  from CVA_simulation_raises_NameError [OF h, of example_predict "round_bin 53" "round_bin 24"
      example_exp example_notebook example_portfolio example_model "\<lparr>recovery = 4 / 10\<rparr>"
      "(Suc, 0)"] example_exposures h
  show ?thesis by blast
qed

text \<open>
  Claim C2 is about the dictionary \<^verbatim>\<open>CVA\<close> that \<^verbatim>\<open>CVA_simulation\<close> returns, and its ordering
  \<open>down \<le> value \<le> up\<close>. The code returns none: on the worked example, where the loop
  over the dates completes, the call ends with NameError at the first error bar.
\<close>

theorem CVA_simulation_example_raises:
  "CVA_simulation example_predict (round_bin 53) (round_bin 24) example_exp
     example_notebook example_portfolio
     example_sim example_model \<lparr>recovery = 4 / 10\<rparr> (Suc, 0) = Inl NameError"
proof -
  have "0 < sim_nt example_sim" by (simp add: example_sim_def)
  then have "sim_nt example_sim \<noteq> 0"
    and "run_loop (cva_step example_sim example_model pi_v dPD) [0..<sim_nt example_sim] c
           = Inl NameError" for pi_v dPD c
    by (simp_all add: cva_loop_raises)
  then show ?thesis
    unfolding CVA_simulation_def by (simp add: example_exposures)
qed

subsection \<open>The default probabilities\<close>

lemma date_step_dPD:
  assumes "date_step predict rnd f32 np_exp nb portfolio sp mp i s = Inr s'"
  shows "snd (fst s') = (snd (fst s))[i := replicate (sim_M sp)
           (f32 (rnd (mp_lambda mp
              * np_exp (rnd (- mp_lambda mp * rnd (mp_T mp / real (sim_nt sp)))))))]"
  using assms by (auto simp: date_step_def Let_def bindE_eq_Inr)

lemma date_loop_dPD:
  assumes "run_loop (date_step predict rnd f32 np_exp nb portfolio sp mp) is s = Inr s'"
  shows "snd (fst s') = fold (\<lambda>i d. d[i := replicate (sim_M sp)
           (f32 (rnd (mp_lambda mp
              * np_exp (rnd (- mp_lambda mp * rnd (mp_T mp / real (sim_nt sp)))))))]) is (snd (fst s))"
  using assms
proof (induction "is" arbitrary: s)
  case Nil
  then show ?case by simp
next
  case (Cons i "is")
  from Cons.prems obtain s1 where 1: "date_step predict rnd f32 np_exp nb portfolio sp mp i s = Inr s1"
    and 2: "run_loop (date_step predict rnd f32 np_exp nb portfolio sp mp) is s1 = Inr s'"
    by (auto simp: bindE_eq_Inr)
  from Cons.IH [OF 2] date_step_dPD [OF 1] show ?case by simp
qed

lemma fold_update_all:
  "length (fold (\<lambda>i d. d[i := v]) is d) = length d
   \<and> (\<forall>i<length d. fold (\<lambda>i d. d[i := v]) is d ! i = (if i \<in> set is then v else d ! i))"
proof (induction "is" arbitrary: d)
  case Nil
  then show ?case by simp
next
  case (Cons k "is")
  from Cons.IH [of "d[k := v]"] show ?case
    by (auto simp: nth_list_update)
qed

text \<open>
  Claim C10, as amended. When the loop over the exposure dates completes, \<^verbatim>\<open>dPD\<close> has one
  row per date and one entry per path, and every entry is the conversion to \<^verbatim>\<open>float32\<close> of
  what the code computes in \<^verbatim>\<open>float64\<close> for \<open>lambda * exp (- lambda * (T / nt))\<close>, the
  quotient, the two products and \<^verbatim>\<open>np.exp\<close> with their roundings: one number, the same
  for every date and path, computed from the model parameters alone.
\<close>

theorem default_probabilities_constant:
  assumes "simulate_exposures predict rnd f32 np_exp nb portfolio sp mp g = Inr ((pi_v, dPD), g')"
  shows "length dPD = sim_nt sp
       \<and> (\<forall>i<sim_nt sp. length (dPD ! i) = sim_M sp
            \<and> (\<forall>m<sim_M sp. dPD ! i ! m
                 = f32 (rnd (mp_lambda mp
                     * np_exp (rnd (- mp_lambda mp * rnd (mp_T mp / real (sim_nt sp))))))))"
proof -
  define c where "c = f32 (rnd (mp_lambda mp
                     * np_exp (rnd (- mp_lambda mp * rnd (mp_T mp / real (sim_nt sp))))))"
  define zeros :: "real list list" where "zeros = replicate (sim_nt sp) (replicate (sim_M sp) 0)"
  from assms have "run_loop (date_step predict rnd f32 np_exp nb portfolio sp mp) [0..<sim_nt sp]
      ((\<lparr>pi_tilde = zeros, pi_exact = zeros, pi_tilde_var = zeros\<rparr>, zeros), g) = Inr ((pi_v, dPD), g')"
    by (simp add: simulate_exposures_def Let_def zeros_def)
  from date_loop_dPD [OF this]
  have d: "dPD = fold (\<lambda>i d. d[i := replicate (sim_M sp) c]) [0..<sim_nt sp] zeros"
    by (simp add: c_def)
  have lz: "length zeros = sim_nt sp" by (simp add: zeros_def)
  from fold_update_all [of "replicate (sim_M sp) c" "[0..<sim_nt sp]" zeros]
  have len: "length dPD = sim_nt sp"
    and rows: "\<forall>i<sim_nt sp. dPD ! i = replicate (sim_M sp) c"
    unfolding d [symmetric] lz by simp_all
  from len rows show ?thesis unfolding c_def by simp
qed


theorem default_probabilities_constant_witness:
  "\<exists>pi_v dPD g'.
     simulate_exposures example_predict (round_bin 53) (round_bin 24) example_exp
       example_notebook example_portfolio example_sim example_model (Suc, 0) = Inr ((pi_v, dPD), g')
   \<and> length dPD = 1 \<and> length (dPD ! 0) = 2
   \<and> dPD ! 0 ! 0 = round_bin 24 (round_bin 53 (5 / 100
         * example_exp (round_bin 53 (- (5 / 100) * round_bin 53 (10 / 1)))))
   \<and> dPD ! 0 ! 1 = dPD ! 0 ! 0"
proof -
  have m: "sim_M example_sim = 2" "sim_nt example_sim = 1"
    "mp_lambda example_model = 5 / 100" "mp_T example_model = 10"
    by (simp_all add: example_sim_def example_model_def)
  from default_probabilities_constant [OF example_exposures] example_exposures
  show ?thesis unfolding m by (intro exI conjI) (assumption, simp_all)
qed

text \<open>
  Claim C10 as stated has the entries of \<^verbatim>\<open>dPD\<close> equal to
  \<open>lambda * exp (- lambda * (T / nt))\<close> itself. The array holds \<^verbatim>\<open>float32\<close> numbers. Take
  the notebook's hazard rate, which in \<^verbatim>\<open>float64\<close> is the number \<open>3602879701896397 / 2 ^ 56\<close>
  for the literal \<^verbatim>\<open>0.05\<close>, and \<open>T = 0\<close>, so that the exponential is that of 0 and equals 1:
  the product is the hazard rate, and the entry stored is the \<^verbatim>\<open>float32\<close> number
  \<open>13421773 / 2 ^ 28\<close>, which is not the hazard rate.
\<close>

definition flat_model :: model_params where
  "flat_model =
     \<lparr>mp_r = 2 / 100, mp_T = 0, mp_t0 = 0,
      mp_lambda = 3602879701896397 / 72057594037927936, mp_size = 1\<rparr>"

lemma flat_exposures:
  "simulate_exposures example_predict (round_bin 53) (round_bin 24) example_exp
     example_notebook example_portfolio example_sim flat_model (Suc, 0)
   = Inr ((\<lparr>pi_tilde = [[- (1 / 2), 2]], pi_exact = [[- 3, - 1]], pi_tilde_var = [[25 / 4, 25 / 4]]\<rparr>,
           [[13421773 / 268435456, 13421773 / 268435456]]),
          (Suc, 2))"
proof -
  have m: "sim_M example_sim = 2" "sim_nt example_sim = 1" "mp_size flat_model = 1"
    "mp_lambda flat_model = 3602879701896397 / 72057594037927936" "mp_T flat_model = 0"
    by (simp_all add: example_sim_def flat_model_def)
  have l1: "[0..<(1::nat)] = [0]" by simp
  have r2: "replicate 2 (0::real) = [0, 0]" by (simp add: numeral_2_eq_2)
  have r2': "replicate 2 x = [x, x]" for x :: real by (simp add: numeral_2_eq_2)
  have r1: "replicate 1 xs = [xs]" for xs :: "real list" by simp
  have dt: "round_bin 53 (0 / real 1) = 0" by (simp add: round_bin_0)
  have arg: "round_bin 53 (- (3602879701896397 / 72057594037927936) * 0) = 0"
    by (simp add: round_bin_0)
  have e0: "example_exp 0 = 1" by (simp add: example_exp_def round_bin_1)
  have hz: "round_bin 53 (3602879701896397 / 72057594037927936 * 1)
      = 3602879701896397 / 72057594037927936"
    by (simp add: round_bin_def bexp.simps rne_def Let_def)
  have st: "round_bin 24 (3602879701896397 / 72057594037927936) = 13421773 / 268435456"
    by (simp add: round_bin_def bexp.simps rne_def Let_def)
  show ?thesis
    unfolding simulate_exposures_def date_step_def
    by (simp only: m l1 r2 r1 Let_def run_loop.simps snd_conv fst_conv example_instrument
          bindE_Inr exposures.simps list_update_code accum.simps r2' list.map b32_small
          dt arg e0 hz st)
qed

theorem default_probability_is_rounded:
  "simulate_exposures example_predict (round_bin 53) (round_bin 24) example_exp
     example_notebook example_portfolio example_sim flat_model (Suc, 0)
   = Inr ((\<lparr>pi_tilde = [[- (1 / 2), 2]], pi_exact = [[- 3, - 1]], pi_tilde_var = [[25 / 4, 25 / 4]]\<rparr>,
           [[13421773 / 268435456, 13421773 / 268435456]]),
          (Suc, 2))
   \<and> (13421773 / 268435456 :: real) \<noteq> mp_lambda flat_model
         * exp (- mp_lambda flat_model * (mp_T flat_model / real (sim_nt example_sim)))"
  by (intro conjI, rule flat_exposures) (simp add: flat_model_def example_sim_def)


subsection \<open>The reported exposure\<close>













text \<open>
  The dictionary \<^verbatim>\<open>pi\<close> as the first loop of \<^verbatim>\<open>CVA_simulation\<close> fills it on the worked
  example (\<open>example_exposures\<close>), given to the cell as \<^verbatim>\<open>pi_0\<close>.
\<close>

definition example_pi :: exposures where
  "example_pi =
     \<lparr>pi_tilde = [[- (1 / 2), 2]], pi_exact = [[- 3, - 1]], pi_tilde_var = [[25 / 4, 25 / 4]]\<rparr>"

lemma example_pi_computed:
  "\<exists>dPD g'.
     simulate_exposures example_predict (round_bin 53) (round_bin 24) example_exp
       example_notebook example_portfolio example_sim example_model (Suc, 0)
     = Inr ((example_pi, dPD), g')"
  unfolding example_pi_def example_exposures by blast




subsection \<open>One draw of scenarios for both pricers\<close>

lemma take_rows_Inr: "take_rows ar idx = Inr rows \<Longrightarrow> rows = map (\<lambda>r. ar ! r) idx"
  by (simp add: take_rows_def split: if_splits)

lemma test_inputs_rows:
  assumes "test_inputs nb i j idx = Inr test_rates"
  shows "\<exists>key cols.
           py_nth (port_idx nb) j = Inr key \<and> dict_get (irs_map nb) key = Inr cols \<and> cols \<noteq> []
         \<and> test_rates = map (\<lambda>s. (if i > 0 then [prev_rates_fx nb ! i ! s ! (cols ! 0)] else [])
                                  @ map (\<lambda>c. rates_fx nb ! i ! s ! c) cols) idx"
proof -
  from assms obtain cur key cols rates prev c0 prev_rates where
    a: "py_nth (rates_fx nb) i = Inr cur" "py_nth (port_idx nb) j = Inr key"
      "dict_get (irs_map nb) key = Inr cols" "take_cols cur cols = Inr rates"
      "py_nth (prev_rates_fx nb) i = Inr prev" "py_nth cols 0 = Inr c0"
      "take_col prev c0 = Inr prev_rates"
    and b: "(if i > 0 then
         bindE (take_rows prev_rates idx) (\<lambda>first.
         bindE (take_rows rates idx) (\<lambda>others.
           Inr (map2 (#) first others)))
       else take_rows rates idx) = Inr test_rates"
    unfolding test_inputs_def bindE_eq_Inr by blast
  from a(1) have cur: "cur = rates_fx nb ! i" by (simp add: py_nth_def split: if_splits)
  from a(5) have prev: "prev = prev_rates_fx nb ! i" by (simp add: py_nth_def split: if_splits)
  from a(6) have c0: "c0 = cols ! 0" "cols \<noteq> []" by (auto simp: py_nth_def split: if_splits)
  from a(4) have rates: "rates = map (\<lambda>row. map (\<lambda>c. row ! c) cols) cur"
    by (simp add: take_cols_def split: if_splits)
  from a(7) have pr: "prev_rates = col prev c0" by (simp add: take_col_def split: if_splits)
  have "test_rates = map (\<lambda>s. (if i > 0 then [prev ! s ! c0] else []) @ map (\<lambda>c. cur ! s ! c) cols) idx"
  proof (cases "i > 0")
    case True
    with b obtain first others where f: "take_rows prev_rates idx = Inr first"
      and ot: "take_rows rates idx = Inr others" and t: "test_rates = map2 (#) first others"
      by (auto simp: bindE_eq_Inr)
    from f have v1: "list_all (\<lambda>r. r < length prev_rates) idx" "first = map (\<lambda>r. prev_rates ! r) idx"
      by (simp_all add: take_rows_def split: if_splits)
    from ot have v2: "list_all (\<lambda>r. r < length rates) idx" "others = map (\<lambda>r. rates ! r) idx"
      by (simp_all add: take_rows_def split: if_splits)
    have "map2 (#) (map (\<lambda>r. prev_rates ! r) idx) (map (\<lambda>r. rates ! r) idx)
        = map (\<lambda>s. prev_rates ! s # rates ! s) idx"
      by (induction idx) simp_all
    also have "\<dots> = map (\<lambda>s. [prev ! s ! c0] @ map (\<lambda>c. cur ! s ! c) cols) idx"
    proof (rule map_cong [OF refl])
      fix s assume "s \<in> set idx"
      with v1(1) v2(1) have "s < length prev_rates" "s < length rates" by (auto simp: list_all_iff)
      then show "prev_rates ! s # rates ! s = [prev ! s ! c0] @ map (\<lambda>c. cur ! s ! c) cols"
        by (simp add: pr rates col_def)
    qed
    finally show ?thesis using True t v1(2) v2(2) by simp
  next
    case False
    with b have ot: "take_rows rates idx = Inr test_rates" by simp
    then have v2: "list_all (\<lambda>r. r < length rates) idx" "test_rates = map (\<lambda>r. rates ! r) idx"
      by (simp_all add: take_rows_def split: if_splits)
    have "map (\<lambda>r. rates ! r) idx = map (\<lambda>s. map (\<lambda>c. cur ! s ! c) cols) idx"
    proof (rule map_cong [OF refl])
      fix s assume "s \<in> set idx"
      with v2(1) have "s < length rates" by (auto simp: list_all_iff)
      then show "rates ! s = map (\<lambda>c. cur ! s ! c) cols" by (simp add: rates)
    qed
    with False v2(2) show ?thesis by simp
  qed
  with a(2,3) c0 cur prev show ?thesis by simp
qed


text \<open>
  One pass of the loop over the instruments: the draw, the prices and the inputs read at
  the drawn scenarios, and what is added to the accumulators.
\<close>

lemma instrument_step_Inr:
  assumes step: "instrument_step predict rnd nb portfolio M i j (acc, g) = Inr (acc', g')"
  shows "\<exists>idx key cols e clipped sc gp_i pred_sc std min_y max_y.
      random_choice g [0..<2 * M] M = Inr (idx, g')
    \<and> length idx = M \<and> list_all (\<lambda>s. s < 2 * M) idx
    \<and> py_nth (port_idx nb) j = Inr key \<and> dict_get (irs_map nb) key = Inr cols
    \<and> dict_get portfolio key = Inr e
    \<and> obs_acc acc' = map2 (\<lambda>a p. rnd (a + rnd (weight e * p))) (obs_acc acc)
                        (map (\<lambda>s. mtm nb ! i ! j ! s) idx)
    \<and> clip_rates e i (dim_of i cols)
          (map (\<lambda>s. (if i > 0 then [prev_rates_fx nb ! i ! s ! (cols ! 0)] else [])
                     @ map (\<lambda>c. rates_fx nb ! i ! s ! c) cols) idx) = Inr clipped
    \<and> rescale_test rnd e i (dim_of i cols) clipped = Inr sc
    \<and> gp_slot (GPs e) i = Inr gp_i
    \<and> predict gp_i sc = Inr (pred_sc, std)
    \<and> scalar_slot (min_sc_y e) i = Inr min_y \<and> scalar_slot (max_sc_y e) i = Inr max_y
    \<and> pred_acc acc' = map2 (\<lambda>a p. rnd (a + rnd (weight e * p))) (pred_acc acc)
                         (map (\<lambda>p. rnd (min_y + rnd (p * rnd (max_y - min_y)))) pred_sc)"
proof -
  from step obtain drawn m prices irs_prices test_rates key cols e clipped sc gp_i predicted where
    a: "random_choice g [0..<2 * M] M = Inr drawn" "py_nth (mtm nb) i = Inr m"
      "py_nth m j = Inr prices" "take_rows prices (fst drawn) = Inr irs_prices"
      "test_inputs nb i j (fst drawn) = Inr test_rates"
      "py_nth (port_idx nb) j = Inr key" "dict_get (irs_map nb) key = Inr cols"
      "dict_get portfolio key = Inr e"
      "clip_rates e i (dim_of i cols) test_rates = Inr clipped"
      "rescale_test rnd e i (dim_of i cols) clipped = Inr sc"
      "gp_slot (GPs e) i = Inr gp_i"
      "predict gp_i sc = Inr predicted"
    and b: "(let pred_sc = fst predicted; std = snd predicted
       in if length pred_sc \<noteq> M \<or> length std \<noteq> M then Inl ValueError
          else
            bindE (scalar_slot (min_sc_y e) i) (\<lambda>min_y.
            bindE (scalar_slot (max_sc_y e) i) (\<lambda>max_y.
              Inr (\<lparr>pred_acc = map2 (\<lambda>a p. rnd (a + rnd (weight e * p))) (pred_acc (fst (acc, g)))
                                  (map (\<lambda>p. rnd (min_y + rnd (p * rnd (max_y - min_y)))) pred_sc),
                    var_acc = map2 (\<lambda>a sd. rnd (a + rnd ((rnd (weight e * sd))\<^sup>2))) (var_acc (fst (acc, g)))
                                  (map (\<lambda>sd. rnd (sd * rnd (max_y - min_y))) std),
                    obs_acc = map2 (\<lambda>a p. rnd (a + rnd (weight e * p))) (obs_acc (fst (acc, g)))
                                  irs_prices\<rparr>,
                   snd drawn)))) = Inr (acc', g')"
    unfolding instrument_step_def bindE_eq_Inr snd_conv by blast
  obtain idx g1 where drawn: "drawn = (idx, g1)" by (cases drawn)
  obtain pred_sc std where predicted: "predicted = (pred_sc, std)" by (cases predicted)
  from b obtain min_y max_y where
    c: "scalar_slot (min_sc_y e) i = Inr min_y" "scalar_slot (max_sc_y e) i = Inr max_y"
    and acc': "acc' = \<lparr>pred_acc = map2 (\<lambda>a p. rnd (a + rnd (weight e * p))) (pred_acc acc)
                   (map (\<lambda>p. rnd (min_y + rnd (p * rnd (max_y - min_y)))) pred_sc),
                 var_acc = map2 (\<lambda>a sd. rnd (a + rnd ((rnd (weight e * sd))\<^sup>2))) (var_acc acc)
                   (map (\<lambda>sd. rnd (sd * rnd (max_y - min_y))) std),
                 obs_acc = map2 (\<lambda>a p. rnd (a + rnd (weight e * p))) (obs_acc acc) irs_prices\<rparr>"
    and g': "g' = g1"
    by (auto simp: Let_def bindE_eq_Inr drawn predicted split: if_splits)
  from a(1) have rc: "random_choice g [0..<2 * M] M = Inr (idx, g')" by (simp add: drawn g')
  from random_choice_Inr [OF rc] have len: "length idx = M" and sub: "set idx \<subseteq> set [0..<2 * M]"
    by simp_all
  from sub have valid: "list_all (\<lambda>s. s < 2 * M) idx" by (auto simp: list_all_iff)
  from a(2,3) have prices: "prices = mtm nb ! i ! j" by (auto simp: py_nth_def split: if_splits)
  from take_rows_Inr [OF a(4)] have "irs_prices = map (\<lambda>s. mtm nb ! i ! j ! s) idx"
    by (simp add: drawn prices)
  then have obs: "obs_acc acc' = map2 (\<lambda>a p. rnd (a + rnd (weight e * p))) (obs_acc acc)
                        (map (\<lambda>s. mtm nb ! i ! j ! s) idx)"
    by (simp add: acc')
  from test_inputs_rows [OF a(5)] a(6,7)
  have tr: "test_rates = map (\<lambda>s. (if i > 0 then [prev_rates_fx nb ! i ! s ! (cols ! 0)] else [])
                                  @ map (\<lambda>c. rates_fx nb ! i ! s ! c) cols) idx"
    by (auto simp: drawn)
  have pred: "pred_acc acc' = map2 (\<lambda>a p. rnd (a + rnd (weight e * p))) (pred_acc acc)
                         (map (\<lambda>p. rnd (min_y + rnd (p * rnd (max_y - min_y)))) pred_sc)"
    by (simp add: acc')
  show ?thesis
    by (intro exI conjI, rule rc, rule len, rule valid, rule a(6), rule a(7), rule a(8),
        rule obs, rule a(9) [unfolded tr], rule a(10), rule a(11),
        rule a(12) [unfolded predicted], rule c(1), rule c(2), rule pred)
qed

text \<open>The states of a loop that completes: one before every pass, and the last.\<close>

lemma run_loop_trace:
  assumes "run_loop body bs s = Inr s'"
  shows "\<exists>tr. length tr = Suc (length bs) \<and> tr ! 0 = s \<and> tr ! length bs = s'
           \<and> (\<forall>k<length bs. body (bs ! k) (tr ! k) = Inr (tr ! Suc k))"
  using assms
proof (induction bs arbitrary: s)
  case Nil
  then have "s' = s" by simp
  then show ?case by (intro exI [of _ "[s]"]) simp
next
  case (Cons b bs)
  from Cons.prems obtain s1 where 1: "body b s = Inr s1" and 2: "run_loop body bs s1 = Inr s'"
    by (auto simp: bindE_eq_Inr)
  from Cons.IH [OF 2] obtain tr where tr: "length tr = Suc (length bs)" "tr ! 0 = s1"
    "tr ! length bs = s'" "\<forall>k<length bs. body (bs ! k) (tr ! k) = Inr (tr ! Suc k)" by blast
  have "\<forall>k<length (b # bs). body ((b # bs) ! k) ((s # tr) ! k) = Inr ((s # tr) ! Suc k)"
  proof (intro allI impI)
    fix k assume k: "k < length (b # bs)"
    show "body ((b # bs) ! k) ((s # tr) ! k) = Inr ((s # tr) ! Suc k)"
    proof (cases k)
      case 0
      with 1 tr(2) show ?thesis by simp
    next
      case (Suc n)
      with k have "n < length bs" by simp
      with tr(4) have "body (bs ! n) (tr ! n) = Inr (tr ! Suc n)" by blast
      with Suc show ?thesis by simp
    qed
  qed
  with tr(1,3) show ?case by (intro exI [of _ "s # tr"]) simp
qed

lemma run_loop_append:
  "run_loop body (xs @ ys) s = bindE (run_loop body xs s) (run_loop body ys)"
proof (induction xs arbitrary: s)
  case Nil
  then show ?case by simp
next
  case (Cons x xs)
  show ?case
  proof (cases "body x s")
    case (Inl e)
    then show ?thesis by simp
  next
    case (Inr s1)
    with Cons.IH [of s1] show ?thesis by simp
  qed
qed

lemma date_step_pi:
  assumes "date_step predict rnd f32 np_exp nb portfolio sp mp k s = Inr s'"
  shows "\<exists>done. run_loop (instrument_step predict rnd nb portfolio (sim_M sp) k) [0..<mp_size mp]
            (\<lparr>pred_acc = replicate (sim_M sp) 0, var_acc = replicate (sim_M sp) 0,
              obs_acc = replicate (sim_M sp) 0\<rparr>, snd s) = Inr done
         \<and> pi_tilde (fst (fst s')) = (pi_tilde (fst (fst s)))[k := map f32 (pred_acc (fst done))]
         \<and> pi_exact (fst (fst s')) = (pi_exact (fst (fst s)))[k := map f32 (obs_acc (fst done))]"
  using assms by (auto simp: date_step_def Let_def bindE_eq_Inr)

lemma date_loop_pi_other:
  assumes "run_loop (date_step predict rnd f32 np_exp nb portfolio sp mp) ks s = Inr s'"
    and "i \<notin> set ks"
  shows "pi_tilde (fst (fst s')) ! i = pi_tilde (fst (fst s)) ! i
       \<and> pi_exact (fst (fst s')) ! i = pi_exact (fst (fst s)) ! i
       \<and> length (pi_tilde (fst (fst s'))) = length (pi_tilde (fst (fst s)))
       \<and> length (pi_exact (fst (fst s'))) = length (pi_exact (fst (fst s)))"
  using assms
proof (induction ks arbitrary: s)
  case Nil
  then show ?case by simp
next
  case (Cons k ks)
  from Cons.prems(1) obtain s1 where
    1: "date_step predict rnd f32 np_exp nb portfolio sp mp k s = Inr s1"
    and 2: "run_loop (date_step predict rnd f32 np_exp nb portfolio sp mp) ks s1 = Inr s'"
    by (auto simp: bindE_eq_Inr)
  from Cons.prems(2) have ne: "k \<noteq> i" and "i \<notin> set ks" by auto
  from Cons.IH [OF 2 this(2)] date_step_pi [OF 1] ne show ?case by auto
qed


text \<open>
  Claim C8. Let the loop over the exposure dates complete, and take a date \<open>i\<close>. The loop
  over the instruments has gone through the states \<open>tr ! 0\<close>, ..., \<open>tr ! n\<close> of the
  accumulators and the generator, \<open>n\<close> the number of instruments, from accumulators that
  are zero. The pass for instrument \<open>j\<close> has made one draw \<open>idx\<close> of \<open>M\<close> scenario numbers
  below \<open>2 * M\<close>: what it adds to \<^verbatim>\<open>obs_\<close> are the analytical prices of the instrument in
  the scenarios \<open>idx\<close>, and what it adds to \<^verbatim>\<open>pred_\<close> is the prediction on the inputs built
  from the instrument's processes (and its first process at the previous reset date, after
  the first date) in the same scenarios \<open>idx\<close>, in the same order, clipped and rescaled.
  Row \<open>i\<close> of \<^verbatim>\<open>pi['tilde']\<close> is the last \<^verbatim>\<open>pred_\<close> and row \<open>i\<close> of \<^verbatim>\<open>pi['exact']\<close> the last
  \<^verbatim>\<open>obs_\<close>, both converted to \<^verbatim>\<open>float32\<close>.
\<close>

theorem same_scenarios_for_gp_and_exact:
  assumes sim: "simulate_exposures predict rnd f32 np_exp nb portfolio sp mp g = Inr ((pi_v, dPD), g')"
    and i: "i < sim_nt sp"
  shows "\<exists>tr. length tr = Suc (mp_size mp)
     \<and> fst (tr ! 0) = \<lparr>pred_acc = replicate (sim_M sp) 0, var_acc = replicate (sim_M sp) 0,
                        obs_acc = replicate (sim_M sp) 0\<rparr>
     \<and> pi_tilde pi_v ! i = map f32 (pred_acc (fst (tr ! mp_size mp)))
     \<and> pi_exact pi_v ! i = map f32 (obs_acc (fst (tr ! mp_size mp)))
     \<and> (\<forall>j<mp_size mp. \<exists>idx key cols e clipped sc gp_i pred_sc std min_y max_y.
            random_choice (snd (tr ! j)) [0..<2 * sim_M sp] (sim_M sp) = Inr (idx, snd (tr ! Suc j))
          \<and> length idx = sim_M sp \<and> list_all (\<lambda>s. s < 2 * sim_M sp) idx
          \<and> py_nth (port_idx nb) j = Inr key \<and> dict_get (irs_map nb) key = Inr cols
          \<and> dict_get portfolio key = Inr e
          \<and> obs_acc (fst (tr ! Suc j))
              = map2 (\<lambda>a p. rnd (a + rnd (weight e * p))) (obs_acc (fst (tr ! j)))
                  (map (\<lambda>s. mtm nb ! i ! j ! s) idx)
          \<and> clip_rates e i (dim_of i cols)
                (map (\<lambda>s. (if i > 0 then [prev_rates_fx nb ! i ! s ! (cols ! 0)] else [])
                           @ map (\<lambda>c. rates_fx nb ! i ! s ! c) cols) idx) = Inr clipped
          \<and> rescale_test rnd e i (dim_of i cols) clipped = Inr sc
          \<and> gp_slot (GPs e) i = Inr gp_i
          \<and> predict gp_i sc = Inr (pred_sc, std)
          \<and> scalar_slot (min_sc_y e) i = Inr min_y \<and> scalar_slot (max_sc_y e) i = Inr max_y
          \<and> pred_acc (fst (tr ! Suc j))
              = map2 (\<lambda>a p. rnd (a + rnd (weight e * p))) (pred_acc (fst (tr ! j)))
                  (map (\<lambda>p. rnd (min_y + rnd (p * rnd (max_y - min_y)))) pred_sc))"
proof -
  define ds where "ds = date_step predict rnd f32 np_exp nb portfolio sp mp"
  define zeros :: "real list list" where "zeros = replicate (sim_nt sp) (replicate (sim_M sp) 0)"
  define s0 where "s0 = ((\<lparr>pi_tilde = zeros, pi_exact = zeros, pi_tilde_var = zeros\<rparr>, zeros), g)"
  define acc0 where "acc0 = \<lparr>pred_acc = replicate (sim_M sp) 0, var_acc = replicate (sim_M sp) 0,
                        obs_acc = replicate (sim_M sp) 0\<rparr>"
  from sim have run: "run_loop ds [0..<sim_nt sp] s0 = Inr ((pi_v, dPD), g')"
    by (simp add: simulate_exposures_def Let_def zeros_def s0_def ds_def)
  from i have split: "[0..<sim_nt sp] = [0..<i] @ i # [Suc i..<sim_nt sp]"
    by (metis le_add2 le_add_same_cancel2 less_imp_add_positive upt_add_eq_append upt_conv_Cons)
  from run obtain s1 s2 where
    r1: "run_loop ds [0..<i] s0 = Inr s1" and r2: "ds i s1 = Inr s2"
    and r3: "run_loop ds [Suc i..<sim_nt sp] s2 = Inr ((pi_v, dPD), g')"
    unfolding split run_loop_append by (auto simp: bindE_eq_Inr)
  have n1: "i \<notin> set [0..<i]" and n3: "i \<notin> set [Suc i..<sim_nt sp]" by simp_all
  from date_loop_pi_other [OF r1 [unfolded ds_def] n1] i
  have len1: "i < length (pi_tilde (fst (fst s1)))" "i < length (pi_exact (fst (fst s1)))"
    by (simp_all add: s0_def zeros_def)
  from date_step_pi [OF r2 [unfolded ds_def]] obtain fin where
    loop: "run_loop (instrument_step predict rnd nb portfolio (sim_M sp) i) [0..<mp_size mp]
            (acc0, snd s1) = Inr fin"
    and t2: "pi_tilde (fst (fst s2)) = (pi_tilde (fst (fst s1)))[i := map f32 (pred_acc (fst fin))]"
    and e2: "pi_exact (fst (fst s2)) = (pi_exact (fst (fst s1)))[i := map f32 (obs_acc (fst fin))]"
    unfolding acc0_def by blast
  from date_loop_pi_other [OF r3 [unfolded ds_def] n3] t2 e2 len1
  have rows: "pi_tilde pi_v ! i = map f32 (pred_acc (fst fin))"
    "pi_exact pi_v ! i = map f32 (obs_acc (fst fin))"
    by simp_all
  from run_loop_trace [OF loop] obtain tr where tr: "length tr = Suc (mp_size mp)"
    "tr ! 0 = (acc0, snd s1)" "tr ! mp_size mp = fin"
    "\<forall>k<mp_size mp. instrument_step predict rnd nb portfolio (sim_M sp) i k (tr ! k) = Inr (tr ! Suc k)"
    by auto
  have first: "fst (tr ! 0) = acc0" by (simp add: tr(2))
  have each: "\<exists>idx key cols e clipped sc gp_i pred_sc std min_y max_y.
            random_choice (snd (tr ! j)) [0..<2 * sim_M sp] (sim_M sp) = Inr (idx, snd (tr ! Suc j))
          \<and> length idx = sim_M sp \<and> list_all (\<lambda>s. s < 2 * sim_M sp) idx
          \<and> py_nth (port_idx nb) j = Inr key \<and> dict_get (irs_map nb) key = Inr cols
          \<and> dict_get portfolio key = Inr e
          \<and> obs_acc (fst (tr ! Suc j))
              = map2 (\<lambda>a p. rnd (a + rnd (weight e * p))) (obs_acc (fst (tr ! j)))
                  (map (\<lambda>s. mtm nb ! i ! j ! s) idx)
          \<and> clip_rates e i (dim_of i cols)
                (map (\<lambda>s. (if i > 0 then [prev_rates_fx nb ! i ! s ! (cols ! 0)] else [])
                           @ map (\<lambda>c. rates_fx nb ! i ! s ! c) cols) idx) = Inr clipped
          \<and> rescale_test rnd e i (dim_of i cols) clipped = Inr sc
          \<and> gp_slot (GPs e) i = Inr gp_i
          \<and> predict gp_i sc = Inr (pred_sc, std)
          \<and> scalar_slot (min_sc_y e) i = Inr min_y \<and> scalar_slot (max_sc_y e) i = Inr max_y
          \<and> pred_acc (fst (tr ! Suc j))
              = map2 (\<lambda>a p. rnd (a + rnd (weight e * p))) (pred_acc (fst (tr ! j)))
                  (map (\<lambda>p. rnd (min_y + rnd (p * rnd (max_y - min_y)))) pred_sc)"
    if j: "j < mp_size mp" for j
  proof -
    from tr(4) j have "instrument_step predict rnd nb portfolio (sim_M sp) i j (tr ! j) = Inr (tr ! Suc j)"
      by blast
    then have "instrument_step predict rnd nb portfolio (sim_M sp) i j (fst (tr ! j), snd (tr ! j))
        = Inr (fst (tr ! Suc j), snd (tr ! Suc j))" by simp
    then show ?thesis by (rule instrument_step_Inr)
  qed
  show ?thesis
    apply (rule exI [of _ tr])
    apply (intro conjI)
        apply (rule tr(1))
       apply (rule first [unfolded acc0_def])
      apply (simp only: rows(1) tr(3))
     apply (simp only: rows(2) tr(3))
    apply (intro allI impI)
    apply (erule each)
    done
qed


text \<open>
  A second example, with two instruments, both with the key 0: the second pass draws the
  positions 3 and 4, which are the scenarios 3 and 0.
\<close>

definition pair_notebook :: notebook where
  "pair_notebook =
     \<lparr>mtm = [[[5, - 3, - 1, 7], [1, 2, 3, 4]]],
      rates_fx = [[[1 / 64], [2 / 64], [3 / 64], [5 / 64]]],
      prev_rates_fx = [[[1 / 64], [1 / 64], [2 / 64], [2 / 64]]],
      port_idx = [0, 0],
      irs_map = make_irs_map (\<lambda>i. 0) [0]\<rparr>"

definition pair_model :: model_params where
  "pair_model = \<lparr>mp_r = 2 / 100, mp_T = 10, mp_t0 = 0, mp_lambda = 5 / 100, mp_size = 2\<rparr>"

lemma b64_more: "round_bin 53 1 = 1" "round_bin 53 0 = 0" "round_bin 53 4 = 4"
  "round_bin 53 7 = 7" "round_bin 53 (13 / 2) = 13 / 2" "round_bin 53 (3 / 2) = 3 / 2"
  "round_bin 53 (25 / 2) = 25 / 2"
  by (simp_all add: round_bin_def bexp.simps rne_def Let_def)

lemma b32_more: "round_bin 24 1 = 1" "round_bin 24 0 = 0"
  "round_bin 24 (13 / 2) = 13 / 2" "round_bin 24 (3 / 2) = 3 / 2" "round_bin 24 (25 / 2) = 25 / 2"
  by (simp_all add: round_bin_def bexp.simps rne_def Let_def)

lemma pair_instrument_0:
  "instrument_step example_predict (round_bin 53) pair_notebook example_portfolio 2 0 0
     (\<lparr>pred_acc = [0, 0], var_acc = [0, 0], obs_acc = [0, 0]\<rparr>, (Suc, 0))
   = Inr (\<lparr>pred_acc = [- (1 / 2), 2], var_acc = [25 / 4, 25 / 4], obs_acc = [- 3, - 1]\<rparr>, (Suc, 2))"
proof -
  define e where "e = example_entry"
  have e_def: "e = \<lparr>GPs = [Some (GP [[0], [1]] [1, 0])], weight = 1,
        min_x = [Some [2 / 64]], max_x = [Some [5 / 64]],
        min_sc_x = [Some [1 / 64]], max_sc_x = [Some [5 / 64]],
        min_sc_y = [Some (- 3)], max_sc_y = [Some 7]\<rparr>"
    by (simp add: e_def example_entry_def)
  have s1: "random_choice (Suc, 0) [0..<2 * 2] 2 = Inr ([1, 2], (Suc, 2))"
    by (simp add: random_choice_def upt_conv_Cons)
  have s2: "py_nth (mtm pair_notebook) 0 = Inr [[5, - 3, - 1, 7], [1, 2, 3, 4]]"
    by (simp add: py_nth_def pair_notebook_def)
  have s3: "py_nth [[5, - 3, - 1, 7 :: real], [1, 2, 3, 4]] 0 = Inr [5, - 3, - 1, 7]"
    by (simp add: py_nth_def)
  have s4: "take_rows [5, - 3, - 1, 7 :: real] [1, 2] = Inr [- 3, - 1]"
    by (simp add: take_rows_def)
  have s5: "test_inputs pair_notebook 0 0 [1, 2] = Inr [[2 / 64], [3 / 64]]"
    by (simp add: test_inputs_def pair_notebook_def make_irs_map_def py_nth_def dict_get_def
          take_cols_def take_col_def take_rows_def)
  have s6: "py_nth (port_idx pair_notebook) 0 = Inr 0"
    by (simp add: py_nth_def pair_notebook_def)
  have s7: "dict_get (irs_map pair_notebook) 0 = Inr [0]"
    by (simp add: dict_get_def pair_notebook_def make_irs_map_def)
  have s8: "dict_get example_portfolio 0 = Inr e"
    by (simp add: dict_get_def example_portfolio_def \<open>e = example_entry\<close>)
  have d: "dim_of 0 [0] = 1" by (simp add: dim_of_def)
  have s9: "clip_rates e 0 1 [[2 / 64], [3 / 64]] = Inr [[2 / 64], [3 / 64]]"
    by (simp add: clip_rates_def clip_column_def clip_def slot_def py_nth_def e_def)
  have s10: "rescale_test (round_bin 53) e 0 1 [[2 / 64], [3 / 64]] = Inr [[Num (1 / 4)], [Num (1 / 2)]]"
    by (simp add: rescale_test_def np_divide_def vec_slot_def py_nth_def e_def b64_dyadic)
  have s11: "gp_slot (GPs e) 0 = Inr (GP [[0], [1]] [1, 0])"
    by (simp add: gp_slot_def py_nth_def e_def)
  have s12: "example_predict (GP [[0], [1]] [1, 0]) [[Num (1 / 4)], [Num (1 / 2)]]
      = Inr ([1 / 4, 1 / 2], [1 / 4, 1 / 4])"
    by (simp add: example_predict_def)
  have s13: "scalar_slot (min_sc_y e) 0 = Inr (- 3)" "scalar_slot (max_sc_y e) 0 = Inr 7"
    by (simp_all add: scalar_slot_def py_nth_def e_def)
  have w: "weight e = 1" by (simp add: e_def)
  show ?thesis
    unfolding instrument_step_def
    by (simp only: snd_conv fst_conv s1 bindE_Inr s2 s3 s4 s5 s6 s7 s8 d s9 s10 s11 s12 Let_def
          s13 w accum.simps)
       (simp add: power2_eq_square b64_small)
qed

lemma pair_instrument_1:
  "instrument_step example_predict (round_bin 53) pair_notebook example_portfolio 2 0 1
     (\<lparr>pred_acc = [- (1 / 2), 2], var_acc = [25 / 4, 25 / 4], obs_acc = [- 3, - 1]\<rparr>, (Suc, 2))
   = Inr (\<lparr>pred_acc = [13 / 2, 3 / 2], var_acc = [25 / 2, 25 / 2], obs_acc = [1, 0]\<rparr>, (Suc, 4))"
proof -
  define e where "e = example_entry"
  have e_def: "e = \<lparr>GPs = [Some (GP [[0], [1]] [1, 0])], weight = 1,
        min_x = [Some [2 / 64]], max_x = [Some [5 / 64]],
        min_sc_x = [Some [1 / 64]], max_sc_x = [Some [5 / 64]],
        min_sc_y = [Some (- 3)], max_sc_y = [Some 7]\<rparr>"
    by (simp add: e_def example_entry_def)
  have s1: "random_choice (Suc, 2) [0..<2 * 2] 2 = Inr ([3, 0], (Suc, 4))"
    by (simp add: random_choice_def upt_conv_Cons)
  have s2: "py_nth (mtm pair_notebook) 0 = Inr [[5, - 3, - 1, 7], [1, 2, 3, 4]]"
    by (simp add: py_nth_def pair_notebook_def)
  have s3: "py_nth [[5, - 3, - 1, 7 :: real], [1, 2, 3, 4]] 1 = Inr [1, 2, 3, 4]"
    by (simp add: py_nth_def)
  have s4: "take_rows [1, 2, 3, 4 :: real] [3, 0] = Inr [4, 1]"
    by (simp add: take_rows_def)
  have s5: "test_inputs pair_notebook 0 1 [3, 0] = Inr [[5 / 64], [1 / 64]]"
    by (simp add: test_inputs_def pair_notebook_def make_irs_map_def py_nth_def dict_get_def
          take_cols_def take_col_def take_rows_def)
  have s6: "py_nth (port_idx pair_notebook) 1 = Inr 0"
    by (simp add: py_nth_def pair_notebook_def)
  have s7: "dict_get (irs_map pair_notebook) 0 = Inr [0]"
    by (simp add: dict_get_def pair_notebook_def make_irs_map_def)
  have s8: "dict_get example_portfolio 0 = Inr e"
    by (simp add: dict_get_def example_portfolio_def \<open>e = example_entry\<close>)
  have d: "dim_of 0 [0] = 1" by (simp add: dim_of_def)
  have s9: "clip_rates e 0 1 [[5 / 64], [1 / 64]] = Inr [[5 / 64], [2 / 64]]"
    by (simp add: clip_rates_def clip_column_def clip_def slot_def py_nth_def e_def)
  have s10: "rescale_test (round_bin 53) e 0 1 [[5 / 64], [2 / 64]] = Inr [[Num 1], [Num (1 / 4)]]"
    by (simp add: rescale_test_def np_divide_def vec_slot_def py_nth_def e_def b64_dyadic round_bin_1)
  have s11: "gp_slot (GPs e) 0 = Inr (GP [[0], [1]] [1, 0])"
    by (simp add: gp_slot_def py_nth_def e_def)
  have s12: "example_predict (GP [[0], [1]] [1, 0]) [[Num 1], [Num (1 / 4)]]
      = Inr ([1, 1 / 4], [1 / 4, 1 / 4])"
    by (simp add: example_predict_def)
  have s13: "scalar_slot (min_sc_y e) 0 = Inr (- 3)" "scalar_slot (max_sc_y e) 0 = Inr 7"
    by (simp_all add: scalar_slot_def py_nth_def e_def)
  have w: "weight e = 1" by (simp add: e_def)
  show ?thesis
    unfolding instrument_step_def
    by (simp only: snd_conv fst_conv s1 bindE_Inr s2 s3 s4 s5 s6 s7 s8 d s9 s10 s11 s12 Let_def
          s13 w accum.simps)
       (simp add: power2_eq_square b64_small b64_more)
qed

lemma pair_exposures:
  "simulate_exposures example_predict (round_bin 53) (round_bin 24) example_exp
     pair_notebook example_portfolio example_sim pair_model (Suc, 0)
   = Inr ((\<lparr>pi_tilde = [[13 / 2, 3 / 2]], pi_exact = [[1, 0]], pi_tilde_var = [[25 / 2, 25 / 2]]\<rparr>,
           [[round_bin 24 (round_bin 53 (5 / 100
               * example_exp (round_bin 53 (- (5 / 100) * round_bin 53 (10 / 1))))),
             round_bin 24 (round_bin 53 (5 / 100
               * example_exp (round_bin 53 (- (5 / 100) * round_bin 53 (10 / 1)))))]]),
          (Suc, 4))"
proof -
  have m: "sim_M example_sim = 2" "sim_nt example_sim = 1" "mp_size pair_model = 2"
    "mp_lambda pair_model = 5 / 100" "mp_T pair_model = 10"
    by (simp_all add: example_sim_def pair_model_def)
  have l1: "[0..<(1::nat)] = [0]" by simp
  have l2: "[0..<(2::nat)] = [0, 1]" by (simp add: upt_conv_Cons)
  have r2: "replicate 2 (0::real) = [0, 0]" by (simp add: numeral_2_eq_2)
  have r2': "replicate 2 x = [x, x]" for x :: real by (simp add: numeral_2_eq_2)
  have r1: "replicate 1 xs = [xs]" for xs :: "real list" by simp
  show ?thesis
    unfolding simulate_exposures_def date_step_def
    by (simp only: m l1 l2 r2 r1 Let_def run_loop.simps snd_conv fst_conv pair_instrument_0
          pair_instrument_1 bindE_Inr exposures.simps list_update_code accum.simps of_nat_1 r2'
          list.map b32_more)
qed


theorem same_scenarios_for_gp_and_exact_witness:
  "\<exists>pi_v dPD g'.
       simulate_exposures example_predict (round_bin 53) (round_bin 24) example_exp
         pair_notebook example_portfolio example_sim pair_model (Suc, 0)
         = Inr ((pi_v, dPD), g')
     \<and> (0::nat) < sim_nt example_sim
     \<and> pi_exact pi_v ! 0 = [1, 0] \<and> pi_tilde pi_v ! 0 = [13 / 2, 3 / 2]
     \<and> (\<exists>(tr :: (accum \<times> rng) list) idx0 idx1.
            length tr = 3
          \<and> random_choice (snd (tr ! 0)) [0..<2 * 2] 2 = Inr (idx0, snd (tr ! 1))
          \<and> random_choice (snd (tr ! 1)) [0..<2 * 2] 2 = Inr (idx1, snd (tr ! 2))
          \<and> obs_acc (fst (tr ! 1))
              = map2 (\<lambda>a p. round_bin 53 (a + round_bin 53 (weight example_entry * p))) [0, 0]
                  (map (\<lambda>s. mtm pair_notebook ! 0 ! 0 ! s) idx0)
          \<and> obs_acc (fst (tr ! 2))
              = map2 (\<lambda>a p. round_bin 53 (a + round_bin 53 (weight example_entry * p)))
                  (obs_acc (fst (tr ! 1)))
                  (map (\<lambda>s. mtm pair_notebook ! 0 ! 1 ! s) idx1)
          \<and> pi_exact pi_v ! 0 = map (round_bin 24) (obs_acc (fst (tr ! 2)))
          \<and> pi_tilde pi_v ! 0 = map (round_bin 24) (pred_acc (fst (tr ! 2))))"
proof -
  define pi_v where "pi_v = \<lparr>pi_tilde = [[13 / 2, 3 / 2 :: real]], pi_exact = [[1, 0 :: real]],
    pi_tilde_var = [[25 / 2, 25 / 2 :: real]]\<rparr>"
  define dPD where "dPD = [[round_bin 24 (round_bin 53 (5 / 100
               * example_exp (round_bin 53 (- (5 / 100) * round_bin 53 (10 / 1))))),
             round_bin 24 (round_bin 53 (5 / 100
               * example_exp (round_bin 53 (- (5 / 100) * round_bin 53 (10 / 1)))))]]"
  have run: "simulate_exposures example_predict (round_bin 53) (round_bin 24) example_exp
         pair_notebook example_portfolio example_sim pair_model (Suc, 0)
         = Inr ((pi_v, dPD), (Suc, 4))"
    unfolding pi_v_def dPD_def by (rule pair_exposures)
  have h: "(0::nat) < sim_nt example_sim" by (simp add: example_sim_def)
  have m: "sim_M example_sim = 2" "mp_size pair_model = 2"
    by (simp_all add: example_sim_def pair_model_def)
  have r2: "replicate 2 (0::real) = [0, 0]" by (simp add: numeral_2_eq_2)
  from same_scenarios_for_gp_and_exact [OF run h] obtain tr where
    tr: "length tr = Suc (mp_size pair_model)"
      "fst (tr ! 0) = \<lparr>pred_acc = replicate (sim_M example_sim) 0,
                       var_acc = replicate (sim_M example_sim) 0,
                       obs_acc = replicate (sim_M example_sim) 0\<rparr>"
      "pi_tilde pi_v ! 0 = map (round_bin 24) (pred_acc (fst (tr ! mp_size pair_model)))"
      "pi_exact pi_v ! 0 = map (round_bin 24) (obs_acc (fst (tr ! mp_size pair_model)))"
    and each: "\<forall>j<mp_size pair_model. \<exists>idx key cols e clipped sc gp_i pred_sc std min_y max_y.
            random_choice (snd (tr ! j)) [0..<2 * sim_M example_sim] (sim_M example_sim)
              = Inr (idx, snd (tr ! Suc j))
          \<and> length idx = sim_M example_sim \<and> list_all (\<lambda>s. s < 2 * sim_M example_sim) idx
          \<and> py_nth (port_idx pair_notebook) j = Inr key
          \<and> dict_get (irs_map pair_notebook) key = Inr cols
          \<and> dict_get example_portfolio key = Inr e
          \<and> obs_acc (fst (tr ! Suc j))
              = map2 (\<lambda>a p. round_bin 53 (a + round_bin 53 (weight e * p))) (obs_acc (fst (tr ! j)))
                  (map (\<lambda>s. mtm pair_notebook ! 0 ! j ! s) idx)
          \<and> clip_rates e 0 (dim_of 0 cols)
                (map (\<lambda>s. (if 0 < (0::nat) then [prev_rates_fx pair_notebook ! 0 ! s ! (cols ! 0)] else [])
                           @ map (\<lambda>c. rates_fx pair_notebook ! 0 ! s ! c) cols) idx) = Inr clipped
          \<and> rescale_test (round_bin 53) e 0 (dim_of 0 cols) clipped = Inr sc
          \<and> gp_slot (GPs e) 0 = Inr gp_i
          \<and> example_predict gp_i sc = Inr (pred_sc, std)
          \<and> scalar_slot (min_sc_y e) 0 = Inr min_y \<and> scalar_slot (max_sc_y e) 0 = Inr max_y
          \<and> pred_acc (fst (tr ! Suc j))
              = map2 (\<lambda>a p. round_bin 53 (a + round_bin 53 (weight e * p))) (pred_acc (fst (tr ! j)))
                  (map (\<lambda>p. round_bin 53 (min_y + round_bin 53 (p * round_bin 53 (max_y - min_y)))) pred_sc)"
    by (elim exE conjE) (rule that, assumption+)
  have pass: "\<exists>idx. random_choice (snd (tr ! j)) [0..<2 * 2] 2 = Inr (idx, snd (tr ! Suc j))
          \<and> obs_acc (fst (tr ! Suc j))
              = map2 (\<lambda>a p. round_bin 53 (a + round_bin 53 (weight example_entry * p)))
                  (obs_acc (fst (tr ! j)))
                  (map (\<lambda>s. mtm pair_notebook ! 0 ! j ! s) idx)"
    if j: "j < 2" for j
  proof -
    from j have "j < mp_size pair_model" by (simp add: m)
    with each obtain idx key e where
      a: "random_choice (snd (tr ! j)) [0..<2 * sim_M example_sim] (sim_M example_sim)
              = Inr (idx, snd (tr ! Suc j))"
        "py_nth (port_idx pair_notebook) j = Inr key"
        "dict_get example_portfolio key = Inr e"
        "obs_acc (fst (tr ! Suc j))
              = map2 (\<lambda>a p. round_bin 53 (a + round_bin 53 (weight e * p))) (obs_acc (fst (tr ! j)))
                  (map (\<lambda>s. mtm pair_notebook ! 0 ! j ! s) idx)"
      by blast
    from a(2) j have key: "key = 0"
      by (cases j) (auto simp: py_nth_def pair_notebook_def split: if_splits)
    from a(3) have e: "e = example_entry" by (simp add: key dict_get_def example_portfolio_def)
    from a(1) a(4) show ?thesis unfolding e m by blast
  qed
  from pass [of 0] obtain idx0 where
    p0: "random_choice (snd (tr ! 0)) [0..<2 * 2] 2 = Inr (idx0, snd (tr ! 1))"
      "obs_acc (fst (tr ! 1))
              = map2 (\<lambda>a p. round_bin 53 (a + round_bin 53 (weight example_entry * p))) [0, 0]
                  (map (\<lambda>s. mtm pair_notebook ! 0 ! 0 ! s) idx0)"
    by (auto simp: tr(2) m r2)
  from pass [of 1] obtain idx1 where
    p1: "random_choice (snd (tr ! 1)) [0..<2 * 2] 2 = Inr (idx1, snd (tr ! 2))"
      "obs_acc (fst (tr ! 2))
              = map2 (\<lambda>a p. round_bin 53 (a + round_bin 53 (weight example_entry * p)))
                  (obs_acc (fst (tr ! 1)))
                  (map (\<lambda>s. mtm pair_notebook ! 0 ! 1 ! s) idx1)"
    by (auto simp: numeral_2_eq_2)
  have c1: "length tr = 3" using tr(1) by (simp add: m)
  have c5: "pi_exact pi_v ! 0 = map (round_bin 24) (obs_acc (fst (tr ! 2)))"
    using tr(4) by (simp add: m)
  have c6: "pi_tilde pi_v ! 0 = map (round_bin 24) (pred_acc (fst (tr ! 2)))"
    using tr(3) by (simp add: m)
  have v: "pi_exact pi_v ! 0 = [1, 0]" "pi_tilde pi_v ! 0 = [13 / 2, 3 / 2]"
    by (simp_all add: pi_v_def)
  have inner: "\<exists>(tr :: (accum \<times> rng) list) idx0 idx1.
            length tr = 3
          \<and> random_choice (snd (tr ! 0)) [0..<2 * 2] 2 = Inr (idx0, snd (tr ! 1))
          \<and> random_choice (snd (tr ! 1)) [0..<2 * 2] 2 = Inr (idx1, snd (tr ! 2))
          \<and> obs_acc (fst (tr ! 1))
              = map2 (\<lambda>a p. round_bin 53 (a + round_bin 53 (weight example_entry * p))) [0, 0]
                  (map (\<lambda>s. mtm pair_notebook ! 0 ! 0 ! s) idx0)
          \<and> obs_acc (fst (tr ! 2))
              = map2 (\<lambda>a p. round_bin 53 (a + round_bin 53 (weight example_entry * p)))
                  (obs_acc (fst (tr ! 1)))
                  (map (\<lambda>s. mtm pair_notebook ! 0 ! 1 ! s) idx1)
          \<and> pi_exact pi_v ! 0 = map (round_bin 24) (obs_acc (fst (tr ! 2)))
          \<and> pi_tilde pi_v ! 0 = map (round_bin 24) (pred_acc (fst (tr ! 2)))"
    by (rule exI [of _ tr], rule exI [of _ idx0], rule exI [of _ idx1])
       (intro conjI c1 p0 p1 c5 c6)
  show ?thesis
    by (rule exI [of _ pi_v], rule exI [of _ dPD], rule exI [of _ "(Suc, 4)"])
       (intro conjI run h v inner)
qed

subsection \<open>Clipping to the training bounds\<close>



lemma fold_update_length [simp]:
  "length (fold (\<lambda>k r. r[k := c k (r ! k)]) ks row) = length row"
  by (induction ks arbitrary: row) auto








lemma sample_loop_valid:
  assumes loop: "sample_loop body bs idx0 g = Inr (idx, g')"
    and body: "\<And>g1 b xs g2. body g1 b = Inr (xs, g2) \<Longrightarrow> \<forall>r\<in>set xs. r < n"
    and idx0: "\<forall>r\<in>set idx0. r < n"
  shows "\<forall>r\<in>set idx. r < n"
proof -
  from sample_loop_Inr [OF loop] obtain draws where d: "length draws = length bs"
    "idx = idx0 @ concat draws"
    "\<forall>k<length bs. \<exists>g1 g2. body g1 (bs ! k) = Inr (draws ! k, g2)" by blast
  have "r < n" if "r \<in> set (concat draws)" for r
  proof -
    from set_concat_nth [OF that] obtain k where k: "k < length draws" "r \<in> set (draws ! k)"
      by blast
    with d(1,3) obtain g1 g2 where "body g1 (bs ! k) = Inr (draws ! k, g2)" by auto
    from body [OF this] k(2) show ?thesis by blast
  qed
  with idx0 d(2) show ?thesis by auto
qed

lemma stratified_sampling_valid:
  assumes "stratified_sampling quantile g ar M = Inr (idx, g')"
  shows "idx \<noteq> [] \<and> (\<forall>r\<in>set idx. r < length ar)"
proof -
  from assms have ar: "ar \<noteq> []" by (auto simp: stratified_sampling_def split: if_splits)
  define d where "d = length (hd ar)"
  define q where "q = quantile_table quantile d ar"
  define n where "n = M div 4 ^ d"
  from assms ar obtain idx0 where bd: "bucket_draws quantile g ar M = Inr (idx0, g')"
    and ge: "2 * d \<le> length idx0"
    and idx: "idx = map (\<lambda>c. np_argmin (col ar c)) [0..<d] @ map (\<lambda>c. np_argmax (col ar c)) [0..<d]
                @ drop (2 * d) idx0"
    by (auto simp: stratified_sampling_def Let_def d_def split: sum.splits if_splits)
  from bd have d2: "2 \<le> d"
    by (auto simp: bucket_draws_def Let_def d_def split: if_splits)
  have v0: "\<forall>r\<in>set idx0. r < length ar"
  proof (cases "d = 2")
    case True
    with bd have "sample_loop (\<lambda>g b. draw2 n g (bucket2 q ar b)) buckets2 [] g = Inr (idx0, g')"
      by (simp add: bucket_draws_def Let_def d_def q_def n_def)
    then show ?thesis
    proof (rule sample_loop_valid)
      fix g1 b xs g2 assume "draw2 n g1 (bucket2 q ar b) = Inr (xs, g2)"
      from draw2_Inr [OF this] show "\<forall>r\<in>set xs. r < length ar"
        using bucket2_valid [of _ q ar b] by blast
    qed simp
  next
    case False
    with d2 bd have "sample_loop (\<lambda>g b. draw3 n g (bucket3 q ar b)) buckets3 [] g = Inr (idx0, g')"
      by (simp add: bucket_draws_def Let_def d_def q_def n_def)
    then show ?thesis
    proof (rule sample_loop_valid)
      fix g1 b xs g2 assume "draw3 n g1 (bucket3 q ar b) = Inr (xs, g2)"
      from draw3_Inr [OF this] show "\<forall>r\<in>set xs. r < length ar"
        using bucket3_valid [of _ q ar b] by blast
    qed simp
  qed
  have colne: "col ar c \<noteq> []" for c using ar by (simp add: col_def)
  have "r < length ar" if "r \<in> set idx" for r
  proof -
    from that idx consider c where "r = np_argmin (col ar c)" | c where "r = np_argmax (col ar c)"
      | "r \<in> set (drop (2 * d) idx0)" by auto
    then show ?thesis
    proof cases
      case 1
      with np_argmin_valid [OF colne, of c] show ?thesis by (simp add: length_col)
    next
      case 2
      with np_argmax_valid [OF colne, of c] show ?thesis by (simp add: length_col)
    next
      case 3
      then have "r \<in> set idx0" by (rule in_set_dropD)
      with v0 show ?thesis by blast
    qed
  qed
  moreover from d2 idx have "idx \<noteq> []" by (cases d) auto
  ultimately show ?thesis by blast
qed

lemma assign_rows_Inr: "assign_rows n xs = Inr ys \<Longrightarrow> length ys = n \<and> set ys \<subseteq> set xs"
  by (cases xs) (auto simp: assign_rows_def split: if_splits)

lemma train_inputs_array:
  assumes "train_inputs nb M i j = Inr rates"
  shows "\<exists>key cols. py_nth (port_idx nb) j = Inr key \<and> dict_get (irs_map nb) key = Inr cols
           \<and> is_array2 (dim_of i cols) rates"
proof -
  from assms obtain key cols where a: "py_nth (port_idx nb) j = Inr key"
    "dict_get (irs_map nb) key = Inr cols"
    and b: "(if i > 0 then
         bindE (py_nth (prev_rates_fx nb) i) (\<lambda>prev.
         bindE (py_nth cols 0) (\<lambda>c0.
         bindE (take_col prev c0) (\<lambda>prev_col.
         bindE (assign_rows (2 * M) prev_col) (\<lambda>first.
         bindE (py_nth (rates_fx nb) i) (\<lambda>cur.
         bindE (take_cols cur cols) (\<lambda>sel.
         bindE (assign_rows (2 * M) sel) (\<lambda>others.
           Inr (map2 (#) first others))))))))
       else
         bindE (py_nth (rates_fx nb) i) (\<lambda>cur. take_cols cur cols)) = Inr rates"
    unfolding train_inputs_def bindE_eq_Inr by blast
  have sel_rows: "\<forall>row\<in>set sel. length row = length cols" if "take_cols cur cols = Inr sel" for cur sel
    using that by (auto simp: take_cols_def split: if_splits)
  have "is_array2 (dim_of i cols) rates"
  proof (cases "i > 0")
    case True
    with b obtain first cur sel others where c: "take_cols cur cols = Inr sel"
      "assign_rows (2 * M) sel = Inr others" "rates = map2 (#) first others"
      by (auto simp: bindE_eq_Inr)
    from sel_rows [OF c(1)] assign_rows_Inr [OF c(2)]
    have "\<forall>row\<in>set others. length row = length cols" by blast
    then have "\<forall>row\<in>set (map2 (#) first others). length row = length cols + 1"
      by (auto dest!: set_zip_rightD)
    with True c(3) show ?thesis by (simp add: is_array2_def list_all_iff dim_of_def)
  next
    case False
    with b obtain cur where "take_cols cur cols = Inr rates" by (auto simp: bindE_eq_Inr)
    from sel_rows [OF this] False show ?thesis by (simp add: is_array2_def list_all_iff dim_of_def)
  qed
  with a show ?thesis by blast
qed

text \<open>
  What a step of the training loop leaves in the dictionary: the regressor fitted to the
  rescaled inputs and the rescaled prices at the sampled rows, the bounds of the sampled
  rows, and the bounds of all rows.
\<close>

lemma train_step_slots:
  assumes "train_step quantile rnd nb M (i, j) (pf, g) = Inr (pf', g')"
  shows "\<exists>key cols e rates idx rates_sc irs_prices_sc.
      py_nth (port_idx nb) j = Inr key \<and> dict_get (irs_map nb) key = Inr cols
    \<and> pf' key = Some e
    \<and> train_inputs nb M i j = Inr rates \<and> is_array2 (dim_of i cols) rates
    \<and> stratified_sampling quantile g rates M = Inr (idx, g')
    \<and> idx \<noteq> [] \<and> list_all (\<lambda>r. r < length rates) idx
    \<and> rescale_inputs rnd rates = Inr rates_sc
    \<and> rescale_prices rnd (mtm nb ! i ! j) = Inr irs_prices_sc
    \<and> i < length (GPs e) \<and> i < length (min_x e) \<and> i < length (max_x e)
    \<and> i < length (min_sc_x e) \<and> i < length (max_sc_x e)
    \<and> GPs e ! i = Some (GP (map (\<lambda>r. rates_sc ! r) idx) (map (\<lambda>r. irs_prices_sc ! r) idx))
    \<and> min_x e ! i = Some (col_mins (map (\<lambda>r. rates ! r) idx))
    \<and> max_x e ! i = Some (col_maxs (map (\<lambda>r. rates ! r) idx))
    \<and> min_sc_x e ! i = Some (col_mins rates)
    \<and> max_sc_x e ! i = Some (col_maxs rates)"
proof -
  from assms obtain rates sampled rates_sc m irs_prices irs_prices_sc x_train y_train sub key pf1
    where a: "train_inputs nb M i j = Inr rates"
      "stratified_sampling quantile g rates M = Inr sampled"
      "rescale_inputs rnd rates = Inr rates_sc"
      "py_nth (mtm nb) i = Inr m" "py_nth m j = Inr irs_prices"
      "rescale_prices rnd irs_prices = Inr irs_prices_sc"
      "take_rows rates_sc (fst sampled) = Inr x_train"
      "take_rows irs_prices_sc (fst sampled) = Inr y_train"
      "take_rows rates (fst sampled) = Inr sub"
      "py_nth (port_idx nb) j = Inr key"
      "store pf key i (GP x_train y_train) (col_mins sub) (col_maxs sub)
              (col_mins rates) (col_maxs rates) (Min (set irs_prices)) (Max (set irs_prices)) = Inr pf1"
    and fin: "pf' = pf1" "g' = snd sampled"
    unfolding train_step_def bindE_eq_Inr fst_conv snd_conv by blast
  obtain idx where sampled: "sampled = (idx, g')" using fin(2) by (cases sampled) simp
  from a(2) have ss: "stratified_sampling quantile g rates M = Inr (idx, g')" by (simp add: sampled)
  from stratified_sampling_valid [OF ss] have idx: "idx \<noteq> []" "list_all (\<lambda>r. r < length rates) idx"
    by (simp_all add: list_all_iff)
  from train_inputs_array [OF a(1)] a(10) obtain cols where
    cols: "dict_get (irs_map nb) key = Inr cols" "is_array2 (dim_of i cols) rates" by auto
  from a(4,5) have prices: "irs_prices = mtm nb ! i ! j" by (auto simp: py_nth_def split: if_splits)
  from take_rows_Inr [OF a(7)] take_rows_Inr [OF a(8)] take_rows_Inr [OF a(9)]
  have rows: "x_train = map (\<lambda>r. rates_sc ! r) idx" "y_train = map (\<lambda>r. irs_prices_sc ! r) idx"
    "sub = map (\<lambda>r. rates ! r) idx" by (simp_all add: sampled)
  from a(11) obtain e0 where e0: "pf key = Some e0"
    and len: "i < length (GPs e0)" "i < length (min_x e0)" "i < length (max_x e0)"
      "i < length (min_sc_x e0)" "i < length (max_sc_x e0)"
    and pf1: "pf1 = pf(key \<mapsto> e0\<lparr>GPs := (GPs e0)[i := Some (GP x_train y_train)],
                               min_x := (min_x e0)[i := Some (col_mins sub)],
                               max_x := (max_x e0)[i := Some (col_maxs sub)],
                               min_sc_x := (min_sc_x e0)[i := Some (col_mins rates)],
                               max_sc_x := (max_sc_x e0)[i := Some (col_maxs rates)],
                               min_sc_y := (min_sc_y e0)[i := Some (Min (set irs_prices))],
                               max_sc_y := (max_sc_y e0)[i := Some (Max (set irs_prices))]\<rparr>)"
    by (auto simp: store_def dict_get_def bindE_eq_Inr split: option.splits if_splits)
  define e where "e = e0\<lparr>GPs := (GPs e0)[i := Some (GP x_train y_train)],
                               min_x := (min_x e0)[i := Some (col_mins sub)],
                               max_x := (max_x e0)[i := Some (col_maxs sub)],
                               min_sc_x := (min_sc_x e0)[i := Some (col_mins rates)],
                               max_sc_x := (max_sc_x e0)[i := Some (col_maxs rates)],
                               min_sc_y := (min_sc_y e0)[i := Some (Min (set irs_prices))],
                               max_sc_y := (max_sc_y e0)[i := Some (Max (set irs_prices))]\<rparr>"
  have pe: "pf' key = Some e" by (simp add: fin(1) pf1 e_def)
  have el: "i < length (GPs e)" "i < length (min_x e)" "i < length (max_x e)"
    "i < length (min_sc_x e)" "i < length (max_sc_x e)"
    using len by (simp_all add: e_def)
  have ev: "GPs e ! i = Some (GP (map (\<lambda>r. rates_sc ! r) idx) (map (\<lambda>r. irs_prices_sc ! r) idx))"
    "min_x e ! i = Some (col_mins (map (\<lambda>r. rates ! r) idx))"
    "max_x e ! i = Some (col_maxs (map (\<lambda>r. rates ! r) idx))"
    "min_sc_x e ! i = Some (col_mins rates)"
    "max_sc_x e ! i = Some (col_maxs rates)"
    using len by (simp_all add: e_def rows)
  from a(10) cols pe a(1) ss idx a(3) a(6) [unfolded prices] el ev show ?thesis by blast
qed



end
